theory Spec2Isabelle
  imports Main "HOL-Library.Char_ord" "HOL-Library.List_Lexorder"
begin

section \<open>Python values and strings\<close>

text \<open>
  The program is one Python module, \<^verbatim>\<open>daily_arxiv.py\<close>. Python strings are modelled as
  \<^typ>\<open>string\<close> (lists of 8-bit characters, read as the code points 0..255), Python's
  \<^verbatim>\<open>None\<close> and every value decoded from a JSON response as \<^typ>\<open>'a option\<close> or as the
  datatype of JSON values below, a raised exception as the left injection of a sum.
\<close>

datatype exn =
    AttributeError | KeyError | TypeError | IndexError | JSONDecodeError | FileNotFoundError

abbreviation NL :: char where "NL \<equiv> CHR 0x0A"
abbreviation DQ :: char where "DQ \<equiv> CHR 0x22"

text \<open>\<^verbatim>\<open>s.find(c)\<close> for a one-character needle: the first index, or -1.\<close>

definition py_find :: "char \<Rightarrow> string \<Rightarrow> int" where
  "py_find c s = (if c \<in> set s then int (length (takeWhile (\<lambda>x. x \<noteq> c) s)) else - 1)"

section \<open>Canonical paper key (get_daily_papers, lines 261-263)\<close>

text \<open>
  \<^verbatim>\<open>ver_pos = paper_id.find('v')\<close>,
  \<^verbatim>\<open>paper_key = paper_id if ver_pos == -1 else paper_id[:ver_pos]\<close>.
\<close>

definition paper_key_of :: "string \<Rightarrow> string" where
  "paper_key_of paper_id =
     (let ver_pos = py_find CHR ''v'' paper_id
      in if ver_pos = - 1 then paper_id else take (nat ver_pos) paper_id)"

section \<open>Outbound requests (http_get, lines 92-111)\<close>

datatype headers = HF_HEADERS | GH_HEADERS

text \<open>A request is the URL, the header set and the query parameters; every call site
  passes \<^verbatim>\<open>timeout=10\<close> and leaves \<^verbatim>\<open>sleep\<close> at its default.\<close>

type_synonym request = "string \<times> headers \<times> (string \<times> string) list"

datatype json =
    JNull | JBool bool | JNum int | JStr string | JArr "json list" | JObj "(string \<times> json) list"

text \<open>A response carries its status code and its body as \<^verbatim>\<open>r.json()\<close> decodes it
  (\<open>None\<close> when decoding raises).\<close>

datatype response = Response (status_code: nat) (body: "json option")

text \<open>What one call of \<^verbatim>\<open>requests.get\<close> does: it returns a response or raises.\<close>

datatype attempt = Answered response | Failed

text \<open>The lines the program logs, one constructor for each \<^verbatim>\<open>logging\<close> call, with the values
  the message is formatted from.\<close>

datatype log =
    Warn_status request nat nat int
  | Error_forbidden
  | Warn_exception request nat int
  | Error_failed request int
  | Error_github_search exn
  | Error_find_code_repo exn
  | Error_hf exn
  | Info_paper string string string
  | Info_keywords string
  | Info_attempt string
  | Info_found string string
  | Error_processing string string exn

datatype event = Sent request | Slept | Log log

text \<open>The world is the trace of effects so far. The network is a parameter: its answer
  to a request may depend on how many requests were sent before it.\<close>

type_synonym world = "event list"
type_synonym network = "nat \<Rightarrow> request \<Rightarrow> attempt"

fun is_sent :: "event \<Rightarrow> bool" where
  "is_sent (Sent q) = True"
| "is_sent e = False"

definition clock :: "world \<Rightarrow> nat" where
  "clock w = length (filter is_sent w)"

text \<open>
  The loop \<^verbatim>\<open>for i in range(retries + 1)\<close>, with \<open>n\<close> the iterations left and
  \<open>last_exc\<close> whether an attempt has raised. A 200 returns at once; any other status is
  logged (a 403 with one more line), an exception is logged, and both sleep and go on.
  After the loop the failure line is logged when an attempt raised, and \<open>None\<close> returned.
\<close>

fun http_get_loop ::
  "network \<Rightarrow> request \<Rightarrow> int \<Rightarrow> nat \<Rightarrow> nat \<Rightarrow> bool \<Rightarrow> world \<Rightarrow> response option \<times> world" where
  "http_get_loop net req retries i 0 last_exc w =
     (None, if last_exc then w @ [Log (Error_failed req (retries + 1))] else w)"
| "http_get_loop net req retries i (Suc n) last_exc w =
     (case net (clock w) req of
        Answered r \<Rightarrow>
          if status_code r = 200 then (Some r, w @ [Sent req])
          else http_get_loop net req retries (Suc i) n last_exc
                 (w @ [Sent req, Log (Warn_status req (status_code r) (Suc i) (retries + 1))]
                    @ (if status_code r = 403 then [Log Error_forbidden] else [])
                    @ [Slept])
      | Failed \<Rightarrow>
          http_get_loop net req retries (Suc i) n True
            (w @ [Sent req, Log (Warn_exception req (Suc i) (retries + 1)), Slept]))"

definition http_get :: "network \<Rightarrow> request \<Rightarrow> int \<Rightarrow> world \<Rightarrow> response option \<times> world" where
  "http_get net req retries w = http_get_loop net req retries 0 (nat (retries + 1)) False w"

text \<open>An attempt counts as a success exactly when it answers with status 200.\<close>

fun succeeds :: "attempt \<Rightarrow> bool" where
  "succeeds (Answered r) = (status_code r = 200)"
| "succeeds Failed = False"

text \<open>A network for examples: the first request is refused with 403, every later one
  answers 200.\<close>

definition net_403_then_200 :: network where
  "net_403_then_200 t q = (if t = 0 then Answered (Response 403 None) else Answered (Response 200 (Some JNull)))"

section \<open>Rendering: pretty_math (json_to_md, lines 398-411)\<close>

text \<open>\<^verbatim>\<open>str.strip()\<close> removes the characters whose \<^verbatim>\<open>isspace()\<close> holds, at both ends.\<close>

definition py_isspace :: "char \<Rightarrow> bool" where
  "py_isspace c \<longleftrightarrow> c \<in> set [CHR 0x09, CHR 0x0A, CHR 0x0B, CHR 0x0C, CHR 0x0D, CHR 0x1C, CHR 0x1D,
                             CHR 0x1E, CHR 0x1F, CHR 0x20, CHR 0x85, CHR 0xA0]"

definition py_strip :: "string \<Rightarrow> string" where
  "py_strip s = rev (dropWhile py_isspace (rev (dropWhile py_isspace s)))"

text \<open>
  \<^verbatim>\<open>re.search(r"\$.*\$", s).span()\<close>. The match starts at the leftmost \<open>$\<close> that has another
  \<open>$\<close> after it before the next newline (\<open>.\<close> does not match a newline), and \<open>.*\<close> is
  greedy: the match ends after the last \<open>$\<close> of that line.
\<close>

fun math_span :: "string \<Rightarrow> (nat \<times> nat) option" where
  "math_span [] = None"
| "math_span (c # cs) =
     (let line = takeWhile (\<lambda>x. x \<noteq> NL) cs in
      if c = CHR ''$'' \<and> CHR ''$'' \<in> set line
      then Some (0, Suc (length (dropWhile (\<lambda>x. x \<noteq> CHR ''$'') (rev line))))
      else map_option (\<lambda>(a, b). (Suc a, Suc b)) (math_span cs))"

text \<open>The rest of \<open>pretty_math\<close>, with the span as a parameter: \<^verbatim>\<open>s[:math_start]\<close> is
  \<open>take\<close>, \<^verbatim>\<open>s[math_end:]\<close> is \<open>drop\<close>, \<^verbatim>\<open>match.group()[1:-1]\<close> drops the two delimiters.\<close>

definition respace :: "string \<Rightarrow> nat \<times> nat \<Rightarrow> string" where
  "respace s span =
     (case span of (math_start, math_end) \<Rightarrow>
        (let space_trail =
               (if math_start > 0 \<and> last (take math_start s) \<noteq> CHR '' ''
                   \<and> CHR ''*'' \<noteq> last (take math_start s) then '' '' else []);
             space_leading =
               (if math_end < length s \<and> hd (drop math_end s) \<noteq> CHR '' ''
                   \<and> CHR ''*'' \<noteq> hd (drop math_end s) then '' '' else []);
             group = take (math_end - math_start) (drop math_start s)
         in take math_start s @ space_trail @ ''$'' @ py_strip (butlast (tl group)) @ ''$''
              @ space_leading @ drop math_end s))"

definition pretty_math :: "string \<Rightarrow> string" where
  "pretty_math s = (case math_span s of None \<Rightarrow> s | Some span \<Rightarrow> respace s span)"

text \<open>
  The specification's reading, for comparison: only the first span delimited by a pair of
  \<open>$\<close> marks is treated, that is, the span ends at the next \<open>$\<close> and not at the last one.
\<close>

fun first_span :: "string \<Rightarrow> (nat \<times> nat) option" where
  "first_span [] = None"
| "first_span (c # cs) =
     (if c = CHR ''$'' \<and> CHR ''$'' \<in> set (takeWhile (\<lambda>x. x \<noteq> NL) cs)
      then Some (0, Suc (Suc (length (takeWhile (\<lambda>x. x \<noteq> CHR ''$'') cs))))
      else map_option (\<lambda>(a, b). (Suc a, Suc b)) (first_span cs))"

definition pretty_math_first_span :: "string \<Rightarrow> string" where
  "pretty_math_first_span s = (case first_span s of None \<Rightarrow> s | Some span \<Rightarrow> respace s span)"

section \<open>The record store: update_json_file (lines 360-384)\<close>

text \<open>
  A Python \<^verbatim>\<open>dict\<close> is an association list in insertion order whose keys are distinct. The
  persisted store is \<^verbatim>\<open>{topic: {paper_id: record}}\<close>, every record a string.
\<close>

type_synonym papers = "(string \<times> string) list"
type_synonym store = "(string \<times> papers) list"

text \<open>\<^verbatim>\<open>d[k] = v\<close>: an existing key keeps its place, a new key goes to the end.\<close>

fun dict_set :: "'k \<Rightarrow> 'v \<Rightarrow> ('k \<times> 'v) list \<Rightarrow> ('k \<times> 'v) list" where
  "dict_set k v [] = [(k, v)]"
| "dict_set k v ((k', v') # d) = (if k' = k then (k, v) # d else (k', v') # dict_set k v d)"

text \<open>\<^verbatim>\<open>d.update(other)\<close>: the entries of \<open>other\<close> are stored one by one, in order.\<close>

definition dict_update :: "('k \<times> 'v) list \<Rightarrow> ('k \<times> 'v) list \<Rightarrow> ('k \<times> 'v) list" where
  "dict_update d other = fold (\<lambda>(k, v). dict_set k v) other d"

text \<open>
  The body of the inner loop (lines 376-381): \<^verbatim>\<open>json_data[keyword].update(papers)\<close> when the
  keyword is a key of \<open>json_data\<close>, \<^verbatim>\<open>json_data[keyword] = papers\<close> otherwise. The update is
  in place in Python (and, through the alias the assignment makes, may also change the
  \<open>papers\<close> object of an earlier batch entry of the same keyword); the value the function
  dumps is the one computed here.
\<close>

definition merge_topic :: "store \<Rightarrow> string \<times> papers \<Rightarrow> store" where
  "merge_topic json_data entry =
     (case entry of (keyword, papers) \<Rightarrow>
        (case map_of json_data keyword of
           Some existing \<Rightarrow> dict_set keyword (dict_update existing papers) json_data
         | None \<Rightarrow> dict_set keyword papers json_data))"

text \<open>\<^verbatim>\<open>for keyword in data.keys()\<close> and \<^verbatim>\<open>for data in data_dict\<close>.\<close>

fun merge_data :: "store \<Rightarrow> store \<Rightarrow> store" where
  "merge_data json_data [] = json_data"
| "merge_data json_data (entry # data) = merge_data (merge_topic json_data entry) data"

fun merge_all :: "store \<Rightarrow> store list \<Rightarrow> store" where
  "merge_all json_data [] = json_data"
| "merge_all json_data (data # data_dict) = merge_all (merge_data json_data data) data_dict"

text \<open>A store as Python holds it: distinct topics, distinct identifiers in each topic.\<close>

definition wf_store :: "store \<Rightarrow> bool" where
  "wf_store s \<longleftrightarrow> distinct (map fst s) \<and> list_all (\<lambda>(t, p). distinct (map fst p)) s"

text \<open>The records of topic \<open>t\<close> as a map from identifiers (empty when the topic is absent), and
  what a batch holds for topic \<open>t\<close>, a later entry of the batch overriding an earlier one.\<close>

definition recs :: "store \<Rightarrow> string \<Rightarrow> (string \<rightharpoonup> string)" where
  "recs s t = (case map_of s t of None \<Rightarrow> Map.empty | Some p \<Rightarrow> map_of p)"

fun incoming :: "store list \<Rightarrow> string \<Rightarrow> (string \<rightharpoonup> string)" where
  "incoming [] t = Map.empty"
| "incoming (data # data_dict) t = recs data t ++ incoming data_dict t"

text \<open>The identifiers of topic \<open>t\<close> in their order, and whether a store already has the
  topic and every identifier of a batch entry.\<close>

definition ids :: "store \<Rightarrow> string \<Rightarrow> string list option" where
  "ids s t = map_option (map fst) (map_of s t)"

definition covers :: "store \<Rightarrow> string \<times> papers \<Rightarrow> bool" where
  "covers s entry =
     (case entry of (t, p) \<Rightarrow>
        (case ids s t of None \<Rightarrow> False | Some ks \<Rightarrow> fst ` set p \<subseteq> set ks))"

text \<open>A store and a batch for examples.\<close>

definition store_ex :: store where
  "store_ex = [(''SLAM'', [(''2101.00001'', ''old 1''), (''2101.00002'', ''old 2'')])]"

definition batch_ex :: "store list" where
  "batch_ex = [[(''SLAM'', [(''2101.00002'', ''new 2''), (''2101.00003'', ''new 3'')])],
               [(''NeRF'', [(''2101.00004'', ''new 4'')])]]"

section \<open>Python operations on decoded JSON\<close>

text \<open>Truth value testing, as \<^verbatim>\<open>if x\<close>, \<^verbatim>\<open>not x\<close> and \<^verbatim>\<open>x or y\<close> apply it.\<close>

fun truthy :: "json \<Rightarrow> bool" where
  "truthy JNull = False"
| "truthy (JBool b) = b"
| "truthy (JNum n) = (n \<noteq> 0)"
| "truthy (JStr s) = (s \<noteq> [])"
| "truthy (JArr xs) = (xs \<noteq> [])"
| "truthy (JObj kvs) = (kvs \<noteq> [])"

text \<open>Sequencing of steps that may raise: the first exception ends the block.\<close>

definition bind_exn :: "exn + 'a \<Rightarrow> ('a \<Rightarrow> exn + 'b) \<Rightarrow> exn + 'b" where
  "bind_exn m f = (case m of Inl e \<Rightarrow> Inl e | Inr x \<Rightarrow> f x)"

text \<open>\<^verbatim>\<open>r.json()\<close>, \<^verbatim>\<open>x.get(key)\<close>, \<^verbatim>\<open>x.get("items", [])\<close>, \<^verbatim>\<open>x[key]\<close> and \<^verbatim>\<open>x[0]\<close>. Only a dict has
  \<^verbatim>\<open>get\<close>; a string key subscripts only a dict; \<^verbatim>\<open>x[0]\<close> is the first element of a list, the
  first character of a string, a \<^verbatim>\<open>KeyError\<close> on a decoded dict (its keys are strings).\<close>

definition json_of :: "response \<Rightarrow> exn + json" where
  "json_of r = (case body r of None \<Rightarrow> Inl JSONDecodeError | Some j \<Rightarrow> Inr j)"

fun py_get :: "json \<Rightarrow> string \<Rightarrow> exn + json" where
  "py_get (JObj kvs) key = Inr (case map_of kvs key of Some v \<Rightarrow> v | None \<Rightarrow> JNull)"
| "py_get j key = Inl AttributeError"

fun py_get_items :: "json \<Rightarrow> exn + json" where
  "py_get_items (JObj kvs) = Inr (case map_of kvs ''items'' of Some v \<Rightarrow> v | None \<Rightarrow> JArr [])"
| "py_get_items j = Inl AttributeError"

fun py_item :: "json \<Rightarrow> string \<Rightarrow> exn + json" where
  "py_item (JObj kvs) key = (case map_of kvs key of Some v \<Rightarrow> Inr v | None \<Rightarrow> Inl KeyError)"
| "py_item j key = Inl TypeError"

fun py_first :: "json \<Rightarrow> exn + json" where
  "py_first (JArr []) = Inl IndexError"
| "py_first (JArr (x # xs)) = Inr x"
| "py_first (JStr []) = Inl IndexError"
| "py_first (JStr (c # cs)) = Inr (JStr [c])"
| "py_first (JObj kvs) = Inl KeyError"
| "py_first j = Inl TypeError"

text \<open>\<^verbatim>\<open>str(x)\<close>, as \<^verbatim>\<open>format\<close> and f-strings apply it: a string is itself, a list or dict is
  printed with the \<^verbatim>\<open>repr\<close> of its parts.\<close>

fun str_nat :: "nat \<Rightarrow> string" where
  "str_nat n = (if n < 10 then [''0123456789'' ! n]
                else str_nat (n div 10) @ [''0123456789'' ! (n mod 10)])"

definition str_int :: "int \<Rightarrow> string" where
  "str_int i = (if i < 0 then CHR ''-'' # str_nat (nat (- i)) else str_nat (nat i))"

definition hex2 :: "nat \<Rightarrow> string" where
  "hex2 n = [''0123456789abcdef'' ! (n div 16), ''0123456789abcdef'' ! (n mod 16)]"

definition repr_char :: "char \<Rightarrow> char \<Rightarrow> string" where
  "repr_char quote c =
     (let n = (of_char c :: nat) in
      if c = quote \<or> c = CHR 0x5C then [CHR 0x5C, c]
      else if c = CHR 0x09 then [CHR 0x5C, CHR ''t'']
      else if c = CHR 0x0A then [CHR 0x5C, CHR ''n'']
      else if c = CHR 0x0D then [CHR 0x5C, CHR ''r'']
      else if n < 32 \<or> n = 127 \<or> (128 \<le> n \<and> n \<le> 160) \<or> n = 173 then [CHR 0x5C, CHR ''x''] @ hex2 n
      else [c])"

definition repr_str :: "string \<Rightarrow> string" where
  "repr_str s =
     (let quote = (if CHR 0x27 \<in> set s \<and> DQ \<notin> set s then DQ else CHR 0x27)
      in [quote] @ concat (map (repr_char quote) s) @ [quote])"

fun join :: "string \<Rightarrow> string list \<Rightarrow> string" where
  "join sep [] = []"
| "join sep [x] = x"
| "join sep (x # y # ys) = x @ sep @ join sep (y # ys)"

fun py_repr :: "json \<Rightarrow> string" where
  "py_repr JNull = ''None''"
| "py_repr (JBool b) = (if b then ''True'' else ''False'')"
| "py_repr (JNum n) = str_int n"
| "py_repr (JStr s) = repr_str s"
| "py_repr (JArr xs) = ''['' @ join '', '' (map py_repr xs) @ '']''"
| "py_repr (JObj kvs) =
     ''{'' @ join '', '' (map (\<lambda>kv. repr_str (fst kv) @ '': '' @ py_repr (snd kv)) kvs) @ ''}''"

definition py_str :: "json \<Rightarrow> string" where
  "py_str j = (case j of JStr s \<Rightarrow> s | _ \<Rightarrow> py_repr j)"


section \<open>The code-link resolver (lines 113-194)\<close>

definition GITHUB_SEARCH_REPO :: string where
  "GITHUB_SEARCH_REPO = ''https://api.github.com/search/repositories''"

definition GITHUB_SEARCH_CODE :: string where
  "GITHUB_SEARCH_CODE = ''https://api.github.com/search/code''"

text \<open>\<^verbatim>\<open>{"q": q, "sort": "stars", "order": "desc", "per_page": 5}\<close>\<close>

definition search_params :: "string \<Rightarrow> (string \<times> string) list" where
  "search_params q = [(''q'', q), (''sort'', ''stars''), (''order'', ''desc''), (''per_page'', ''5'')]"

text \<open>
  \<open>get_code_link\<close> (lines 113-135): one repository search; \<open>None\<close> when the request layer
  gives no response, when \<open>items\<close> is empty, and (logged) when any step of reading the
  response raises; otherwise \<^verbatim>\<open>items[0].get("html_url")\<close>.
\<close>

definition get_code_link :: "network \<Rightarrow> string \<Rightarrow> world \<Rightarrow> json \<times> world" where
  "get_code_link net qword w =
     (case http_get net (GITHUB_SEARCH_REPO, GH_HEADERS, search_params qword) 2 w of
        (None, w1) \<Rightarrow> (JNull, w1)
      | (Some resp, w1) \<Rightarrow>
          (case bind_exn (json_of resp) (\<lambda>results.
                bind_exn (py_get_items results) (\<lambda>items.
                  if truthy items
                  then bind_exn (py_first items) (\<lambda>it.
                       bind_exn (py_get it ''html_url'') (\<lambda>u. Inr (Some u)))
                  else Inr None)) of
             Inl e \<Rightarrow> (JNull, w1 @ [Log (Error_github_search e)])
           | Inr (Some u) \<Rightarrow> (u, w1)
           | Inr None \<Rightarrow> (JNull, w1)))"

text \<open>
  \<^verbatim>\<open>if r and r.json().get("items"): return <url of>(r.json()["items"][0])\<close>, the test each of
  the three searches of \<open>find_code_repo\<close> makes: \<open>Inr (Some u)\<close> when it returns \<open>u\<close>,
  \<open>Inr None\<close> when the test fails, \<open>Inl e\<close> when a step raises. (A response that
  \<open>http_get\<close> returns has status 200 and is true.)
\<close>

definition first_hit :: "response option \<Rightarrow> (json \<Rightarrow> exn + json) \<Rightarrow> exn + json option" where
  "first_hit r url_of =
     (case r of
        None \<Rightarrow> Inr None
      | Some resp \<Rightarrow>
          bind_exn (json_of resp) (\<lambda>j.
          bind_exn (py_get j ''items'') (\<lambda>items.
            if truthy items
            then bind_exn (py_item j ''items'') (\<lambda>its.
                 bind_exn (py_first its) (\<lambda>it.
                 bind_exn (url_of it) (\<lambda>u. Inr (Some u))))
            else Inr None)))"

text \<open>The three searches of \<open>find_code_repo\<close> (lines 145-164), in its docstring's order:
  title phrase in README or description, arXiv id, code search for the id in README files.\<close>

definition title_phrase_search :: "network \<Rightarrow> string \<Rightarrow> world \<Rightarrow> (exn + json option) \<times> world" where
  "title_phrase_search net paper_title w =
     (let q1 = [DQ] @ paper_title @ [DQ] @ '' in:readme,in:description''
      in case http_get net (GITHUB_SEARCH_REPO, GH_HEADERS, search_params q1) 2 w of
           (r, w1) \<Rightarrow> (first_hit r (\<lambda>it. py_item it ''html_url''), w1))"

definition arxiv_id_search :: "network \<Rightarrow> string \<Rightarrow> world \<Rightarrow> (exn + json option) \<times> world" where
  "arxiv_id_search net arxiv_id_no_ver w =
     (let q2 = [DQ] @ arxiv_id_no_ver @ [DQ] @ '' in:name,readme,description''
      in case http_get net (GITHUB_SEARCH_REPO, GH_HEADERS, search_params q2) 2 w of
           (r, w1) \<Rightarrow> (first_hit r (\<lambda>it. py_item it ''html_url''), w1))"

definition readme_code_search :: "network \<Rightarrow> string \<Rightarrow> world \<Rightarrow> (exn + json option) \<times> world" where
  "readme_code_search net arxiv_id_no_ver w =
     (let q3 = [DQ] @ arxiv_id_no_ver @ [DQ] @ '' in:file filename:README''
      in case http_get net (GITHUB_SEARCH_CODE, GH_HEADERS, [(''q'', q3), (''per_page'', ''5'')]) 2 w of
           (r, w1) \<Rightarrow>
             (first_hit r (\<lambda>it. bind_exn (py_item it ''repository'')
                                   (\<lambda>repo. py_item repo ''html_url'')), w1))"

text \<open>\<open>find_code_repo\<close> (lines 137-167). The whole body is one \<^verbatim>\<open>try\<close>: an exception in any of
  the searches is logged and ends the function with \<open>None\<close>.\<close>

definition find_code_repo :: "network \<Rightarrow> string \<Rightarrow> string \<Rightarrow> string \<Rightarrow> world \<Rightarrow> json \<times> world" where
  "find_code_repo net paper_title arxiv_id_no_ver primary_author w =
     (case title_phrase_search net paper_title w of
        (Inl e, w1) \<Rightarrow> (JNull, w1 @ [Log (Error_find_code_repo e)])
      | (Inr (Some u), w1) \<Rightarrow> (u, w1)
      | (Inr None, w1) \<Rightarrow>
          (case arxiv_id_search net arxiv_id_no_ver w1 of
             (Inl e, w2) \<Rightarrow> (JNull, w2 @ [Log (Error_find_code_repo e)])
           | (Inr (Some u), w2) \<Rightarrow> (u, w2)
           | (Inr None, w2) \<Rightarrow>
               (case readme_code_search net arxiv_id_no_ver w2 of
                  (Inl e, w3) \<Rightarrow> (JNull, w3 @ [Log (Error_find_code_repo e)])
                | (Inr (Some u), w3) \<Rightarrow> (u, w3)
                | (Inr None, w3) \<Rightarrow> (JNull, w3))))"

text \<open>
  \<open>get_repo_from_hf\<close> (lines 169-194). \<open>pick\<close> walks \<^verbatim>\<open>arr or []\<close> and returns the hub URL of
  the first entry whose \<open>id\<close> is true; iterating a dict yields its keys, iterating a string
  its characters, a number or \<open>True\<close> cannot be iterated.
\<close>

fun pick_loop :: "json list \<Rightarrow> string \<Rightarrow> exn + json" where
  "pick_loop [] t = Inr JNull"
| "pick_loop (it # arr) t =
     (case py_get it ''id'' of
        Inl e \<Rightarrow> Inl e
      | Inr rid \<Rightarrow>
          if truthy rid then Inr (JStr (''https://huggingface.co/'' @ t @ ''/'' @ py_str rid))
          else pick_loop arr t)"

definition pick :: "json \<Rightarrow> string \<Rightarrow> exn + json" where
  "pick arr t =
     (if \<not> truthy arr then Inr JNull
      else case arr of
             JArr xs \<Rightarrow> pick_loop xs t
           | JObj kvs \<Rightarrow> pick_loop (map (\<lambda>kv. JStr (fst kv)) kvs) t
           | JStr s \<Rightarrow> pick_loop (map (\<lambda>c. JStr [c]) s) t
           | _ \<Rightarrow> Inl TypeError)"

definition get_repo_from_hf :: "network \<Rightarrow> string \<Rightarrow> world \<Rightarrow> json \<times> world" where
  "get_repo_from_hf net arxiv_id_no_ver w =
     (let url = ''https://huggingface.co/api/arxiv/'' @ arxiv_id_no_ver @ ''/repos''
      in case http_get net (url, HF_HEADERS, []) 2 w of
           (None, w1) \<Rightarrow> (JNull, w1)
         | (Some resp, w1) \<Rightarrow>
             (case bind_exn (json_of resp) (\<lambda>data.
                   bind_exn (py_get data ''spaces'') (\<lambda>sp.
                   bind_exn (pick sp ''spaces'') (\<lambda>a.
                   if truthy a then Inr a
                   else bind_exn (py_get data ''models'') (\<lambda>mo.
                        bind_exn (pick mo ''models'') (\<lambda>b.
                        if truthy b then Inr b
                        else bind_exn (py_get data ''datasets'') (\<lambda>ds.
                             pick ds ''datasets'')))))) of
                Inl e \<Rightarrow> (JNull, w1 @ [Log (Error_hf e)])
              | Inr v \<Rightarrow> (v, w1)))"

text \<open>
  The two places that run the chain. In \<open>get_daily_papers\<close> (lines 267-271) the hub result is
  tested with \<^verbatim>\<open>is None\<close> and the three later calls are joined by \<^verbatim>\<open>or\<close>; in
  \<open>update_paper_links\<close> (lines 343-346) all four calls are joined by \<^verbatim>\<open>or\<close>, which goes on
  to its right operand exactly when the left one is false.
\<close>

definition resolve_daily :: "network \<Rightarrow> string \<Rightarrow> string \<Rightarrow> string \<Rightarrow> world \<Rightarrow> json \<times> world" where
  "resolve_daily net paper_title paper_key paper_first_author w =
     (case get_repo_from_hf net paper_key w of
        (repo_url, w1) \<Rightarrow>
          if repo_url = JNull
          then (case find_code_repo net paper_title paper_key paper_first_author w1 of
                  (a, w2) \<Rightarrow>
                    if truthy a then (a, w2)
                    else (case get_code_link net paper_title w2 of
                            (b, w3) \<Rightarrow> if truthy b then (b, w3) else get_code_link net paper_key w3))
          else (repo_url, w1))"

definition resolve_backfill :: "network \<Rightarrow> string \<Rightarrow> string \<Rightarrow> string \<Rightarrow> world \<Rightarrow> json \<times> world" where
  "resolve_backfill net paper_title paper_key paper_first_author w =
     (case get_repo_from_hf net paper_key w of
        (h, w1) \<Rightarrow>
          if truthy h then (h, w1)
          else (case find_code_repo net paper_title paper_key paper_first_author w1 of
                  (a, w2) \<Rightarrow>
                    if truthy a then (a, w2)
                    else (case get_code_link net paper_title w2 of
                            (b, w3) \<Rightarrow> if truthy b then (b, w3) else get_code_link net paper_key w3)))"

text \<open>A network for examples: the hub answers with one model entry, every other request
  with an empty result list.\<close>

definition net_hub_model :: network where
  "net_hub_model t q =
     (case q of (url, hs, ps) \<Rightarrow>
        if hs = HF_HEADERS
        then Answered (Response 200 (Some (JObj [(''models'', JArr [JObj [(''id'', JStr ''org/m'')]])])))
        else Answered (Response 200 (Some (JObj [(''items'', JArr [])]))))"

section \<open>String operations of the record format\<close>

text \<open>\<^verbatim>\<open>s.split(sep)\<close> for a one-character separator, \<^verbatim>\<open>pat in s\<close>, and
  \<^verbatim>\<open>s.replace(old, new)\<close> for a non-empty \<open>old\<close> (every occurrence, left to right, without
  overlap).\<close>

fun py_split :: "char \<Rightarrow> string \<Rightarrow> string list" where
  "py_split sep [] = [[]]"
| "py_split sep (c # cs) =
     (if c = sep then [] # py_split sep cs
      else (case py_split sep cs of p # ps \<Rightarrow> (c # p) # ps | [] \<Rightarrow> [[c]]))"

fun py_in :: "string \<Rightarrow> string \<Rightarrow> bool" where
  "py_in pat [] = (pat = [])"
| "py_in pat (c # cs) = (take (length pat) (c # cs) = pat \<or> py_in pat cs)"

fun py_replace :: "string \<Rightarrow> string \<Rightarrow> string \<Rightarrow> string" where
  "py_replace old new [] = []"
| "py_replace old new (c # cs) =
     (if old \<noteq> [] \<and> take (length old) (c # cs) = old
      then new @ py_replace old new (drop (length old - 1) cs)
      else c # py_replace old new cs)"

text \<open>\<^verbatim>\<open>xs[i]\<close> for \<open>i \<ge> 0\<close>.\<close>

definition py_index :: "'a list \<Rightarrow> nat \<Rightarrow> exn + 'a" where
  "py_index xs i = (if i < length xs then Inr (xs ! i) else Inl IndexError)"

section \<open>Discovery: get_daily_papers (lines 237-296)\<close>

text \<open>
  What the literature search yields for one paper, as far as the function reads it:
  \<^verbatim>\<open>get_short_id()\<close>, the title, the authors' names, and the publication and update dates
  as \<^verbatim>\<open>str\<close> prints them (\<open>None\<close> when the field is unset).
\<close>

record arxiv_result =
  res_short_id :: string
  res_title :: string
  res_authors :: "string list"
  res_published :: "string option"
  res_updated :: "string option"

definition arxiv_url :: string where
  "arxiv_url = ''https://arxiv.org/''"

definition get_authors :: "string list \<Rightarrow> bool \<Rightarrow> string" where
  "get_authors authors first_author =
     (if authors = [] then [] else if first_author then hd authors else join '', '' authors)"

text \<open>The four format strings of lines 275-283, the newline of line 289 appended to the two
  list lines.\<close>

definition row_link :: "string \<Rightarrow> string \<Rightarrow> string \<Rightarrow> string \<Rightarrow> string \<Rightarrow> string \<Rightarrow> string" where
  "row_link update_time paper_title paper_first_author paper_key paper_url repo_url =
     ''|**'' @ update_time @ ''**|**'' @ paper_title @ ''**|'' @ paper_first_author
       @ '' et.al.|['' @ paper_key @ '']('' @ paper_url @ '')|**[link]('' @ repo_url @ '')**|'' @ [NL]"

definition row_null :: "string \<Rightarrow> string \<Rightarrow> string \<Rightarrow> string \<Rightarrow> string \<Rightarrow> string" where
  "row_null update_time paper_title paper_first_author paper_key paper_url =
     ''|**'' @ update_time @ ''**|**'' @ paper_title @ ''**|'' @ paper_first_author
       @ '' et.al.|['' @ paper_key @ '']('' @ paper_url @ '')'' @ ''|null|'' @ [NL]"

definition web_link :: "string \<Rightarrow> string \<Rightarrow> string \<Rightarrow> string \<Rightarrow> string \<Rightarrow> string" where
  "web_link update_time paper_title paper_first_author paper_url repo_url =
     ''- '' @ update_time @ '', **'' @ paper_title @ ''**, '' @ paper_first_author
       @ '' et.al., Paper: ['' @ paper_url @ '']('' @ paper_url @ ''), Code: **['' @ repo_url
       @ '']('' @ repo_url @ '')**'' @ [NL]"

definition web_plain :: "string \<Rightarrow> string \<Rightarrow> string \<Rightarrow> string \<Rightarrow> string" where
  "web_plain update_time paper_title paper_first_author paper_url =
     ''- '' @ update_time @ '', **'' @ paper_title @ ''**, '' @ paper_first_author
       @ '' et.al., Paper: ['' @ paper_url @ '']('' @ paper_url @ '')'' @ [NL]"

text \<open>The loop body for one result: the two dictionaries and the world go in and come out.
  (Formatting strings cannot raise, so the \<^verbatim>\<open>except\<close> of line 291 has no branch.)\<close>

definition daily_paper ::
  "network \<Rightarrow> arxiv_result \<Rightarrow> papers \<times> papers \<times> world \<Rightarrow> papers \<times> papers \<times> world" where
  "daily_paper net result st =
     (case st of (content, content_to_web, w) \<Rightarrow>
        (let paper_id = res_short_id result;
             paper_title = res_title result;
             paper_first_author = get_authors (res_authors result) True;
             publish_time = (case res_published result of Some d \<Rightarrow> d | None \<Rightarrow> []);
             update_time = (case res_updated result of Some d \<Rightarrow> d | None \<Rightarrow> publish_time);
             w0 = w @ [Log (Info_paper update_time paper_title paper_first_author)];
             paper_key = paper_key_of paper_id;
             paper_url = arxiv_url @ ''abs/'' @ paper_key
         in case resolve_daily net paper_title paper_key paper_first_author w0 of
              (repo_url, w1) \<Rightarrow>
                if repo_url \<noteq> JNull
                then (dict_set paper_key
                        (row_link update_time paper_title paper_first_author paper_key paper_url
                           (py_str repo_url)) content,
                      dict_set paper_key
                        (web_link update_time paper_title paper_first_author paper_url
                           (py_str repo_url)) content_to_web,
                      w1)
                else (dict_set paper_key
                        (row_null update_time paper_title paper_first_author paper_key paper_url)
                        content,
                      dict_set paper_key
                        (web_plain update_time paper_title paper_first_author paper_url)
                        content_to_web,
                      w1)))"

definition get_daily_papers ::
  "network \<Rightarrow> string \<Rightarrow> arxiv_result list \<Rightarrow> world \<Rightarrow> store \<times> store \<times> world" where
  "get_daily_papers net topic results w =
     (case fold (daily_paper net) results ([], [], w) of
        (content, content_to_web, w') \<Rightarrow> ([(topic, content)], [(topic, content_to_web)], w'))"

section \<open>Backfill: update_paper_links (lines 298-358)\<close>

text \<open>
  \<^verbatim>\<open>re.search(r'\[(.*?)\]', s)\<close>, group 1: the text between the leftmost \<open>[\<close> that has a
  \<open>]\<close> after it on the same line and the first such \<open>]\<close>.
\<close>

fun bracket_group :: "string \<Rightarrow> string option" where
  "bracket_group [] = None"
| "bracket_group (c # cs) =
     (let g = takeWhile (\<lambda>x. x \<noteq> CHR '']'' \<and> x \<noteq> NL) cs;
          rest = dropWhile (\<lambda>x. x \<noteq> CHR '']'' \<and> x \<noteq> NL) cs
      in if c = CHR ''['' \<and> rest \<noteq> [] \<and> hd rest = CHR '']'' then Some g else bracket_group cs)"

text \<open>\<^verbatim>\<open>re.sub(r'v\d+', '', s)\<close>: every \<open>v\<close> followed by digits goes, with those digits.\<close>

definition is_digit :: "char \<Rightarrow> bool" where
  "is_digit c \<longleftrightarrow> c \<in> set ''0123456789''"

function sub_version :: "string \<Rightarrow> string" where
  "sub_version [] = []"
| "sub_version (c # cs) =
     (if c = CHR ''v'' \<and> cs \<noteq> [] \<and> is_digit (hd cs) then sub_version (dropWhile is_digit cs)
      else c # sub_version cs)"
  by pat_completeness auto
termination
  by (relation "measure length") (auto intro: le_imp_less_Suc length_dropWhile_le)

text \<open>\<open>parse_arxiv_string\<close> (lines 302-313); a row with fewer than six parts raises
  \<^verbatim>\<open>IndexError\<close>.\<close>

definition parse_arxiv_string ::
  "string \<Rightarrow> exn + (string \<times> string \<times> string \<times> string \<times> string \<times> string)" where
  "parse_arxiv_string s =
     (let parts = py_split CHR ''|'' s in
      bind_exn (py_index parts 1) (\<lambda>p1.
      bind_exn (py_index parts 2) (\<lambda>p2.
      bind_exn (py_index parts 3) (\<lambda>p3.
      bind_exn (py_index parts 4) (\<lambda>p4.
      bind_exn (py_index parts 5) (\<lambda>p5.
        let date = py_strip p1;
            title = py_strip p2;
            authors = py_strip p3;
            pdf_field = py_strip p4;
            code = py_strip p5;
            arxiv_id = (case bracket_group pdf_field of Some g \<Rightarrow> py_strip g | None \<Rightarrow> pdf_field)
        in Inr (date, title, authors, sub_version arxiv_id, code, pdf_field)))))))"

text \<open>The row as line 333 writes it back, from what the parse returned.\<close>

definition normal_row :: "string \<times> string \<times> string \<times> string \<times> string \<times> string \<Rightarrow> string" where
  "normal_row parsed =
     (case parsed of
        (update_time, paper_title, paper_first_author, paper_key, code_url, paper_url_field) \<Rightarrow>
          ''|'' @ update_time @ ''|'' @ paper_title @ ''|'' @ paper_first_author @ ''|''
            @ paper_url_field @ ''|'' @ code_url @ ''|'' @ [NL])"

text \<open>
  The body of the inner loop (lines 328-354) for one entry: the value stored under
  \<open>paper_id\<close> afterwards, and the world. A parse failure is logged and stores nothing. A
  parsed row is stored in normal form; when that form holds \<open>|null|\<close> the chain runs, and a
  result other than \<open>None\<close> is stored with every \<open>|null|\<close> replaced.
\<close>

definition backfill_record :: "network \<Rightarrow> string \<times> string \<Rightarrow> world \<Rightarrow> string \<times> world" where
  "backfill_record net entry w =
     (case entry of (paper_id, contents) \<Rightarrow>
        (case parse_arxiv_string contents of
           Inl e \<Rightarrow> (contents, w @ [Log (Error_processing paper_id contents e)])
         | Inr parsed \<Rightarrow>
             (case parsed of
                (update_time, paper_title, paper_first_author, paper_key, code_url, paper_url_field) \<Rightarrow>
                  (let contents' = normal_row parsed;
                       valid_link = (if py_in ''|null|'' contents' then False else True)
                   in if valid_link then (contents', w)
                      else (case resolve_backfill net paper_title paper_key paper_first_author
                                   (w @ [Log (Info_attempt paper_key)]) of
                              (repo_url, w1) \<Rightarrow>
                                if repo_url \<noteq> JNull
                                then (let new_cont = py_replace ''|null|''
                                            (''|**[link]('' @ py_str repo_url @ '')**|'') contents'
                                      in (new_cont, w1 @ [Log (Info_found paper_key new_cont)]))
                                else (contents', w1))))))"

text \<open>
  The two loops (lines 324-327). \<^verbatim>\<open>json_data[keywords][paper_id] = ...\<close> stores under a key
  that is being visited, so the dictionaries keep their keys and their order.
\<close>

fun backfill_papers :: "network \<Rightarrow> papers \<Rightarrow> world \<Rightarrow> papers \<times> world" where
  "backfill_papers net [] w = ([], w)"
| "backfill_papers net ((paper_id, contents) # v) w =
     (case backfill_record net (paper_id, contents) w of
        (c', w1) \<Rightarrow>
          (case backfill_papers net v w1 of (v', w2) \<Rightarrow> ((paper_id, c') # v', w2)))"

fun backfill_topics :: "network \<Rightarrow> store \<Rightarrow> world \<Rightarrow> store \<times> world" where
  "backfill_topics net [] w = ([], w)"
| "backfill_topics net ((keywords, v) # m) w =
     (case backfill_papers net v (w @ [Log (Info_keywords keywords)]) of
        (v', w1) \<Rightarrow>
          (case backfill_topics net m w1 of (m', w2) \<Rightarrow> ((keywords, v') # m', w2)))"

text \<open>A row needs a link when it parses and its normal form holds \<open>|null|\<close>; \<open>normalize\<close> is
  the row a pass leaves when the row does not need a link.\<close>

definition needs_link :: "string \<Rightarrow> bool" where
  "needs_link contents =
     (case parse_arxiv_string contents of
        Inl e \<Rightarrow> False
      | Inr parsed \<Rightarrow> py_in ''|null|'' (normal_row parsed))"

definition normalize :: "string \<Rightarrow> string" where
  "normalize contents =
     (case parse_arxiv_string contents of Inl e \<Rightarrow> contents | Inr parsed \<Rightarrow> normal_row parsed)"

text \<open>The events a pass makes without invoking the resolver: the topic line and the line
  for a row that does not parse.\<close>

fun quiet :: "event \<Rightarrow> bool" where
  "quiet (Log (Info_keywords t)) = True"
| "quiet (Log (Error_processing k c e)) = True"
| "quiet e = False"

definition fully_resolved :: "store \<Rightarrow> bool" where
  "fully_resolved s = list_all (\<lambda>(t, v). list_all (\<lambda>(k, c). \<not> needs_link c) v) s"

definition normalize_store :: "store \<Rightarrow> store" where
  "normalize_store s = map (\<lambda>(t, v). (t, map (\<lambda>(k, c). (k, normalize c)) v)) s"

text \<open>A store for examples: one list-format line (which has no \<open>|\<close> and does not parse) and
  one row with a link; and a row without a link.\<close>

definition resolved_ex :: store where
  "resolved_ex =
     [(''SLAM'',
       [(''2108.09113'', web_plain ''2021-08-20'' ''B title'' ''B. Author''
           ''https://arxiv.org/abs/2108.09113''),
        (''2108.09112'', row_link ''2021-08-20'' ''A title'' ''A. Author'' ''2108.09112''
           ''https://arxiv.org/abs/2108.09112'' ''https://github.com/o/r'')])]"

definition null_row_ex :: string where
  "null_row_ex = row_null ''2021-08-20'' ''A title'' ''A. Author'' ''2108.09112''
                   ''https://arxiv.org/abs/2108.09112''"

text \<open>A search result and a network on which every request fails, for examples.\<close>

definition result_ex :: arxiv_result where
  "result_ex = \<lparr>res_short_id = ''2108.09112v1'', res_title = ''A title'',
                 res_authors = [''A. Author'', ''B. Author''],
                 res_published = Some ''2021-08-19'', res_updated = Some ''2021-08-20''\<rparr>"

definition net_down :: network where
  "net_down t q = Failed"

section \<open>Rendering: json_to_md (lines 386-509)\<close>

text \<open>\<open>sort_papers\<close> (lines 84-90): the keys sorted in descending order (strings compare by
  code point, a prefix before its extensions), the values moved into a new dictionary in
  that order.\<close>

definition sort_papers :: "papers \<Rightarrow> papers" where
  "sort_papers papers =
     fold (\<lambda>key output. case map_of papers key of Some v \<Rightarrow> dict_set key v output | None \<Rightarrow> output)
       (rev (sort (map fst papers))) []"

text \<open>\<^verbatim>\<open>s.lower()\<close> on the code points 0..255, and the two uses of \<^verbatim>\<open>replace\<close> with
  one-character patterns.\<close>

definition py_lower_char :: "char \<Rightarrow> char" where
  "py_lower_char c =
     (case map_of (zip (''ABCDEFGHIJKLMNOPQRSTUVWXYZ'' @
                        [CHR 0xC0, CHR 0xC1, CHR 0xC2, CHR 0xC3, CHR 0xC4, CHR 0xC5, CHR 0xC6,
                         CHR 0xC7, CHR 0xC8, CHR 0xC9, CHR 0xCA, CHR 0xCB, CHR 0xCC, CHR 0xCD,
                         CHR 0xCE, CHR 0xCF, CHR 0xD0, CHR 0xD1, CHR 0xD2, CHR 0xD3, CHR 0xD4,
                         CHR 0xD5, CHR 0xD6, CHR 0xD8, CHR 0xD9, CHR 0xDA, CHR 0xDB, CHR 0xDC,
                         CHR 0xDD, CHR 0xDE])
                       (''abcdefghijklmnopqrstuvwxyz'' @
                        [CHR 0xE0, CHR 0xE1, CHR 0xE2, CHR 0xE3, CHR 0xE4, CHR 0xE5, CHR 0xE6,
                         CHR 0xE7, CHR 0xE8, CHR 0xE9, CHR 0xEA, CHR 0xEB, CHR 0xEC, CHR 0xED,
                         CHR 0xEE, CHR 0xEF, CHR 0xF0, CHR 0xF1, CHR 0xF2, CHR 0xF3, CHR 0xF4,
                         CHR 0xF5, CHR 0xF6, CHR 0xF8, CHR 0xF9, CHR 0xFA, CHR 0xFB, CHR 0xFC,
                         CHR 0xFD, CHR 0xFE])) c of
        Some l \<Rightarrow> l
      | None \<Rightarrow> c)"

definition py_lower :: "string \<Rightarrow> string" where
  "py_lower s = map py_lower_char s"

definition replace_char :: "char \<Rightarrow> char \<Rightarrow> string \<Rightarrow> string" where
  "replace_char old new s = map (\<lambda>c. if c = old then new else c) s"

definition remove_char :: "char \<Rightarrow> string \<Rightarrow> string" where
  "remove_char old s = filter (\<lambda>c. c \<noteq> old) s"

record render_options =
  to_web :: bool
  use_title :: bool
  use_tc :: bool
  show_badge :: bool
  use_b2t :: bool

text \<open>\<^verbatim>\<open>DateNow\<close>: \<^verbatim>\<open>str(datetime.date.today())\<close> with \<open>-\<close> replaced by \<open>.\<close>; the date as
  \<^verbatim>\<open>str\<close> prints it is a parameter of the rendering.\<close>

definition date_now :: "string \<Rightarrow> string" where
  "date_now today = replace_char CHR ''-'' CHR ''.'' today"

text \<open>What is written before the sections (lines 431-445).\<close>

definition md_header :: "string \<Rightarrow> render_options \<Rightarrow> string" where
  "md_header today opts =
     (if use_title opts \<and> to_web opts
      then ''---'' @ [NL] @ ''layout: default'' @ [NL] @ ''---'' @ [NL, NL] else [])
     @ (if show_badge opts
        then ''[![Contributors][contributors-shield]][contributors-url]'' @ [NL]
           @ ''[![Forks][forks-shield]][forks-url]'' @ [NL]
           @ ''[![Stargazers][stars-shield]][stars-url]'' @ [NL]
           @ ''[![Issues][issues-shield]][issues-url]'' @ [NL, NL]
        else [])
     @ (if use_title opts then ''## Updated on '' @ date_now today @ [NL]
        else ''> Updated on '' @ date_now today @ [NL])
     @ ''> Usage instructions: [here](./docs/README.md#usage)'' @ [NL, NL]"

text \<open>The table of contents (lines 448-459): one line for each topic that has records.\<close>

definition toc_line :: "string \<times> papers \<Rightarrow> string" where
  "toc_line entry =
     (case entry of (keyword, day_content) \<Rightarrow>
        if day_content = [] then []
        else ''    <li><a href=#'' @ py_lower (replace_char CHR '' '' CHR ''-'' keyword) @ ''>''
               @ keyword @ ''</a></li>'' @ [NL])"

definition md_toc :: "store \<Rightarrow> string" where
  "md_toc data =
     ''<details>'' @ [NL] @ ''  <summary>Table of Contents</summary>'' @ [NL] @ ''  <ol>'' @ [NL]
     @ concat (map toc_line data)
     @ ''  </ol>'' @ [NL] @ ''</details>'' @ [NL, NL]"

text \<open>One topic (lines 461-488): nothing for a topic without records; otherwise the heading,
  the table head when \<open>use_title\<close>, the records in the order of \<open>sort_papers\<close>, each through
  \<open>pretty_math\<close>, an empty line, and the back-to-top link when \<open>use_b2t\<close>.\<close>

definition md_section :: "string \<Rightarrow> render_options \<Rightarrow> string \<times> papers \<Rightarrow> string" where
  "md_section today opts entry =
     (case entry of (keyword, day_content) \<Rightarrow>
        if day_content = [] then []
        else ''## '' @ keyword @ [NL, NL]
           @ (if use_title opts
              then (if \<not> to_web opts
                    then ''|Publish Date|Title|Authors|PDF|Code|'' @ [NL]
                       @ ''|---|---|---|---|---|'' @ [NL]
                    else ''| Publish Date | Title | Authors | PDF | Code |'' @ [NL]
                       @ ''|:---------|:-----------------------|:---------|:------|:------|'' @ [NL])
              else [])
           @ concat (map (\<lambda>(k, v). pretty_math v) (sort_papers day_content))
           @ [NL]
           @ (if use_b2t opts
              then ''<p align=right>(<a href=''
                 @ py_lower (remove_char CHR ''.''
                     (replace_char CHR '' '' CHR ''-'' (''#Updated on '' @ date_now today)))
                 @ ''>back to top</a>)</p>'' @ [NL, NL]
              else []))"

text \<open>The badge link definitions written after the sections (lines 490-507).\<close>

definition md_footer :: "render_options \<Rightarrow> string" where
  "md_footer opts =
     (if show_badge opts
      then ''[contributors-shield]: https://img.shields.io/github/contributors/Vincentqyw/cv-arxiv-daily.svg?style=for-the-badge'' @ [NL]
         @ ''[contributors-url]: https://github.com/Vincentqyw/cv-arxiv-daily/graphs/contributors'' @ [NL]
         @ ''[forks-shield]: https://img.shields.io/github/forks/Vincentqyw/cv-arxiv-daily.svg?style=for-the-badge'' @ [NL]
         @ ''[forks-url]: https://github.com/Vincentqyw/cv-arxiv-daily/network/members'' @ [NL]
         @ ''[stars-shield]: https://img.shields.io/github/stars/Vincentqyw/cv-arxiv-daily.svg?style=for-the-badge'' @ [NL]
         @ ''[stars-url]: https://github.com/Vincentqyw/cv-arxiv-daily/stargazers'' @ [NL]
         @ ''[issues-shield]: https://img.shields.io/github/issues/Vincentqyw/cv-arxiv-daily.svg?style=for-the-badge'' @ [NL]
         @ ''[issues-url]: https://github.com/Vincentqyw/cv-arxiv-daily/issues'' @ [NL, NL]
      else [])"

text \<open>Everything \<open>json_to_md\<close> writes, in order.\<close>

definition render :: "string \<Rightarrow> render_options \<Rightarrow> store \<Rightarrow> string" where
  "render today opts data =
     md_header today opts
     @ (if use_tc opts then md_toc data else [])
     @ concat (map (md_section today opts) data)
     @ md_footer opts"

section \<open>Files: the three operations of the driver\<close>

text \<open>
  The file system: the text of the file at a path, for the paths that have a file, and the
  exception that opening a path for writing raises, for the paths that cannot be opened
  that way (a directory that does not exist, a file that may not be written).
  \<^verbatim>\<open>json.loads\<close> and \<^verbatim>\<open>json.dump\<close> are parameters: a decoder from text to a store, which may
  raise, and an encoder. Each of \<open>update_json_file\<close> (lines 364-369), \<open>update_paper_links\<close>
  (lines 315-320) and \<open>json_to_md\<close> (lines 417-422) starts with the same lines:
  \<^verbatim>\<open>open(filename, "r")\<close>, which raises when there is no such file, \<^verbatim>\<open>f.read()\<close>, and the
  empty store for empty text.
\<close>

type_synonym files = "string \<rightharpoonup> string"

record filesystem =
  file_text :: files
  write_error :: "string \<rightharpoonup> exn"

definition load_store :: "(string \<Rightarrow> exn + store) \<Rightarrow> files \<Rightarrow> string \<Rightarrow> exn + store" where
  "load_store json_loads fs filename =
     (case fs filename of
        None \<Rightarrow> Inl FileNotFoundError
      | Some content \<Rightarrow> if content = [] then Inr [] else json_loads content)"

text \<open>\<^verbatim>\<open>open(path, "w")\<close> and the writes that follow: the exception of the open, which no
  caller handles, or the file system with the new text at the path.\<close>

definition write_file :: "filesystem \<Rightarrow> string \<Rightarrow> string \<Rightarrow> exn + filesystem" where
  "write_file fs path s =
     (case write_error fs path of
        Some e \<Rightarrow> Inl e
      | None \<Rightarrow> Inr (fs\<lparr>file_text := (file_text fs)(path \<mapsto> s)\<rparr>))"

definition update_json_file ::
  "(string \<Rightarrow> exn + store) \<Rightarrow> (store \<Rightarrow> string) \<Rightarrow> filesystem \<Rightarrow> string \<Rightarrow> store list
     \<Rightarrow> exn + filesystem" where
  "update_json_file json_loads json_dump fs filename data_dict =
     (case load_store json_loads (file_text fs) filename of
        Inl e \<Rightarrow> Inl e
      | Inr m \<Rightarrow> write_file fs filename (json_dump (merge_all m data_dict)))"

text \<open>The backfill runs between the load and the write (lines 324-358): the requests it
  sent stay sent when the write raises.\<close>

definition update_paper_links ::
  "(string \<Rightarrow> exn + store) \<Rightarrow> (store \<Rightarrow> string) \<Rightarrow> network \<Rightarrow> filesystem \<Rightarrow> string \<Rightarrow> world
     \<Rightarrow> (exn + filesystem) \<times> world" where
  "update_paper_links json_loads json_dump net fs filename w =
     (case load_store json_loads (file_text fs) filename of
        Inl e \<Rightarrow> (Inl e, w)
      | Inr m \<Rightarrow>
          (case backfill_topics net m w of
             (json_data, w') \<Rightarrow> (write_file fs filename (json_dump json_data), w')))"

text \<open>\<open>json_to_md\<close> loads the store, then opens the output file with \<^verbatim>\<open>"w+"\<close>, which empties
  it or raises (lines 425-426), then with \<^verbatim>\<open>"a+"\<close> and appends: what the file held before is
  gone.\<close>

definition json_to_md ::
  "(string \<Rightarrow> exn + store) \<Rightarrow> string \<Rightarrow> filesystem \<Rightarrow> string \<Rightarrow> string \<Rightarrow> render_options
     \<Rightarrow> exn + filesystem" where
  "json_to_md json_loads today fs filename md_filename opts =
     (case load_store json_loads (file_text fs) filename of
        Inl e \<Rightarrow> Inl e
      | Inr data \<Rightarrow> write_file fs md_filename (render today opts data))"

text \<open>For examples: options; a decoder that accepts nothing and one that reads the text
  \<open>store_ex\<close> as the store of that name; an encoder; a file system without files, one where
  the store file is empty, and two where it holds the text \<open>store_ex\<close>, the second with an
  old page. In the last three the directory \<open>out\<close> does not exist.\<close>

definition readme_options :: render_options where
  "readme_options = \<lparr>to_web = False, use_title = True, use_tc = True, show_badge = False,
                      use_b2t = True\<rparr>"

definition no_json :: "string \<Rightarrow> exn + store" where
  "no_json s = Inl JSONDecodeError"

definition loads_ex :: "string \<Rightarrow> exn + store" where
  "loads_ex s = (if s = ''store_ex'' then Inr store_ex else Inl JSONDecodeError)"

definition dump_ex :: "store \<Rightarrow> string" where
  "dump_ex s = concat (map (\<lambda>(t, v). t @ concat (map (\<lambda>(k, c). k @ c) v)) s)"

definition fs_none :: filesystem where
  "fs_none = \<lparr>file_text = Map.empty, write_error = Map.empty\<rparr>"

definition fs_empty :: filesystem where
  "fs_empty = \<lparr>file_text = [''docs/cv-arxiv-daily.json'' \<mapsto> []],
                write_error = [''out/README.md'' \<mapsto> FileNotFoundError]\<rparr>"

definition fs_new :: filesystem where
  "fs_new = \<lparr>file_text = [''docs/cv-arxiv-daily.json'' \<mapsto> ''store_ex''],
              write_error = [''out/README.md'' \<mapsto> FileNotFoundError]\<rparr>"

definition fs_old :: filesystem where
  "fs_old = \<lparr>file_text = [''docs/cv-arxiv-daily.json'' \<mapsto> ''store_ex'', ''README.md'' \<mapsto> ''old''],
              write_error = [''out/README.md'' \<mapsto> FileNotFoundError]\<rparr>"

text \<open>Rows as discovery stores them for papers whose titles hold the column separator: two
  with a link and one without.\<close>

definition pipe_title_row_ex :: string where
  "pipe_title_row_ex = row_link ''2021-08-20'' ''Entropy of A|B systems'' ''A. Author''
     ''2108.09112'' ''https://arxiv.org/abs/2108.09112'' ''https://github.com/o/r''"

definition null_title_row_ex :: string where
  "null_title_row_ex = row_link ''2021-08-20'' ''a|null|b'' ''A. Author''
     ''2108.09112'' ''https://arxiv.org/abs/2108.09112'' ''https://github.com/o/r''"

definition pipe_null_row_ex :: string where
  "pipe_null_row_ex = row_null ''2021-08-20'' ''Measuring |V_ub| at Belle'' ''A. Author''
     ''2108.09112'' ''https://arxiv.org/abs/2108.09112''"



section \<open>Properties\<close>

subsection \<open>Canonical paper key\<close>

lemma py_find_absent: "c \<notin> set s \<Longrightarrow> py_find c s = - 1"
  by (simp add: py_find_def)

lemma paper_key_of_no_v: "CHR ''v'' \<notin> set s \<Longrightarrow> paper_key_of s = s"
  by (simp add: paper_key_of_def py_find_absent)

lemma paper_key_of_takeWhile: "paper_key_of s = takeWhile (\<lambda>x. x \<noteq> CHR ''v'') s"
proof (cases "CHR ''v'' \<in> set s")
  case True
  then show ?thesis
    by (simp add: paper_key_of_def py_find_def Let_def takeWhile_eq_take [symmetric])
next
  case False
  then have "takeWhile (\<lambda>x. x \<noteq> CHR ''v'') s = s"
    by auto
  moreover from False have "paper_key_of s = s"
    by (rule paper_key_of_no_v)
  ultimately show ?thesis
    by (simp only:)
qed

lemma paper_key_of_suffix:
  "CHR ''v'' \<notin> set base \<Longrightarrow> paper_key_of (base @ CHR ''v'' # ds) = base"
  unfolding paper_key_of_takeWhile by (induction base) auto

lemma paper_key_of_stable: "paper_key_of (paper_key_of s) = paper_key_of s"
  by (simp add: paper_key_of_takeWhile)

text \<open>
  C6. The key is the identifier cut at its first \<open>v\<close>, which is the version suffix only
  when no \<open>v\<close> stands before it. For the old-style identifier \<open>solv-int/9901001v1\<close> the key
  is \<open>sol\<close>, not \<open>solv-int/9901001\<close>; without a version, \<open>solv-int/9901001\<close> is cut to
  \<open>sol\<close> as well.
\<close>

theorem paper_key_of_old_style:
  "paper_key_of ''solv-int/9901001v1'' = ''sol'' \<and>
   paper_key_of ''solv-int/9901001'' = ''sol'' \<and>
   paper_key_of ''2108.09112v1'' = ''2108.09112'' \<and>
   paper_key_of ''2108.09112'' = ''2108.09112''"
  by (simp add: paper_key_of_takeWhile)

subsection \<open>Outbound requests\<close>

lemma clock_append [simp]: "clock (w @ v) = clock w + clock v"
  by (simp add: clock_def)

lemma clock_Cons_Sent [simp]: "clock (Sent q # w) = Suc (clock w)"
  by (simp add: clock_def)

lemma clock_Cons_Log [simp]: "clock (Log l # w) = clock w"
  by (simp add: clock_def)

lemma clock_Cons_Slept [simp]: "clock (Slept # w) = clock w"
  by (simp add: clock_def)

lemma clock_Nil [simp]: "clock [] = 0"
  by (simp add: clock_def)

lemma clock_if_Log [simp]: "clock (if b then [Log l] else []) = 0"
  by simp

lemma all_less_Suc_shift: "(\<forall>j<Suc m. P j) \<longleftrightarrow> P 0 \<and> (\<forall>j<m. P (Suc j))"
  by (auto simp: less_Suc_eq_0_disj)

lemma http_get_loop_Some:
  "http_get_loop net req retries i n last_exc w = (Some r, w') \<Longrightarrow>
   \<exists>m<n. net (clock w + m) req = Answered r \<and> status_code r = 200 \<and>
          (\<forall>j<m. \<not> succeeds (net (clock w + j) req)) \<and> clock w' = clock w + m + 1"
proof (induction n arbitrary: i last_exc w)
  case 0
  then show ?case by simp
next
  case (Suc n)
  show ?case
  proof (cases "net (clock w) req")
    case Failed
    with Suc.prems have
      "http_get_loop net req retries (Suc i) n True
         (w @ [Sent req, Log (Warn_exception req (Suc i) (retries + 1)), Slept]) = (Some r, w')"
      by simp
    from Suc.IH [OF this] obtain m where m: "m < n"
      "net (Suc (clock w) + m) req = Answered r" "status_code r = 200"
      "\<forall>j<m. \<not> succeeds (net (Suc (clock w) + j) req)" "clock w' = Suc (clock w) + m + 1"
      by auto
    from m Failed have "\<forall>j<Suc m. \<not> succeeds (net (clock w + j) req)"
      by (simp add: all_less_Suc_shift)
    with m show ?thesis
      by (intro exI [of _ "Suc m"]) simp
  next
    case (Answered a)
    show ?thesis
    proof (cases "status_code a = 200")
      case True
      with Answered Suc.prems show ?thesis
        by (intro exI [of _ 0]) auto
    next
      case False
      with Answered Suc.prems have
        "http_get_loop net req retries (Suc i) n last_exc
           (w @ [Sent req, Log (Warn_status req (status_code a) (Suc i) (retries + 1))]
              @ (if status_code a = 403 then [Log Error_forbidden] else []) @ [Slept]) = (Some r, w')"
        by simp
      from Suc.IH [OF this] obtain m where m: "m < n"
        "net (Suc (clock w) + m) req = Answered r" "status_code r = 200"
        "\<forall>j<m. \<not> succeeds (net (Suc (clock w) + j) req)" "clock w' = Suc (clock w) + m + 1"
        by auto
      from m Answered False have "\<forall>j<Suc m. \<not> succeeds (net (clock w + j) req)"
        by (simp add: all_less_Suc_shift)
      with m show ?thesis
        by (intro exI [of _ "Suc m"]) simp
    qed
  qed
qed

lemma http_get_loop_None:
  "http_get_loop net req retries i n last_exc w = (None, w') \<Longrightarrow>
   (\<forall>j<n. \<not> succeeds (net (clock w + j) req)) \<and> clock w' = clock w + n"
proof (induction n arbitrary: i last_exc w)
  case 0
  then show ?case by (auto split: if_splits)
next
  case (Suc n)
  show ?case
  proof (cases "net (clock w) req")
    case Failed
    with Suc.prems have
      "http_get_loop net req retries (Suc i) n True
         (w @ [Sent req, Log (Warn_exception req (Suc i) (retries + 1)), Slept]) = (None, w')"
      by simp
    from Suc.IH [OF this] Failed show ?thesis
      by (simp add: all_less_Suc_shift)
  next
    case (Answered a)
    with Suc.prems have ne: "status_code a \<noteq> 200"
      by (auto split: if_splits)
    with Answered Suc.prems have
      "http_get_loop net req retries (Suc i) n last_exc
         (w @ [Sent req, Log (Warn_status req (status_code a) (Suc i) (retries + 1))]
            @ (if status_code a = 403 then [Log Error_forbidden] else []) @ [Slept]) = (None, w')"
      by simp
    from Suc.IH [OF this] Answered ne show ?thesis
      by (simp add: all_less_Suc_shift)
  qed
qed

lemma http_get_loop_flags:
  "http_get_loop net req retries i n last_exc w = (res, w') \<Longrightarrow>
   \<exists>new. w' = w @ new \<and>
     (\<forall>j r. clock w + j < clock w' \<and> net (clock w + j) req = Answered r \<and> status_code r = 403
        \<longrightarrow> Log Error_forbidden \<in> set new)"
proof (induction n arbitrary: i last_exc w)
  case 0
  then show ?case by (auto split: if_splits)
next
  case (Suc n)
  show ?case
  proof (cases "net (clock w) req")
    case Failed
    let ?w2 = "w @ [Sent req, Log (Warn_exception req (Suc i) (retries + 1)), Slept]"
    from Failed Suc.prems have "http_get_loop net req retries (Suc i) n True ?w2 = (res, w')"
      by simp
    from Suc.IH [OF this] obtain new where new: "w' = ?w2 @ new"
      "\<forall>j r. clock ?w2 + j < clock w' \<and> net (clock ?w2 + j) req = Answered r \<and> status_code r = 403
        \<longrightarrow> Log Error_forbidden \<in> set new"
      by blast
    have "Log Error_forbidden \<in> set ([Sent req, Log (Warn_exception req (Suc i) (retries + 1)), Slept] @ new)"
      if "clock w + j < clock w'" "net (clock w + j) req = Answered r" "status_code r = 403" for j r
    proof (cases j)
      case 0
      with that Failed show ?thesis by simp
    next
      case (Suc k)
      with that new(2) [rule_format, of k r] show ?thesis by simp
    qed
    with new(1) show ?thesis
      by (intro exI [of _ "[Sent req, Log (Warn_exception req (Suc i) (retries + 1)), Slept] @ new"]) auto
  next
    case (Answered a)
    show ?thesis
    proof (cases "status_code a = 200")
      case True
      with Answered Suc.prems have w': "w' = w @ [Sent req]"
        by auto
      have False if "clock w + j < clock w'" "net (clock w + j) req = Answered r" "status_code r = 403" for j r
        using that w' Answered True by (cases j) auto
      with w' show ?thesis by blast
    next
      case False
      let ?mid = "[Sent req, Log (Warn_status req (status_code a) (Suc i) (retries + 1))]
              @ (if status_code a = 403 then [Log Error_forbidden] else []) @ [Slept]"
      from Answered False Suc.prems have "http_get_loop net req retries (Suc i) n last_exc (w @ ?mid) = (res, w')"
        by simp
      from Suc.IH [OF this] obtain new where new: "w' = (w @ ?mid) @ new"
        "\<forall>j r. clock (w @ ?mid) + j < clock w' \<and> net (clock (w @ ?mid) + j) req = Answered r \<and> status_code r = 403
          \<longrightarrow> Log Error_forbidden \<in> set new"
        by blast
      have "Log Error_forbidden \<in> set (?mid @ new)"
        if "clock w + j < clock w'" "net (clock w + j) req = Answered r" "status_code r = 403" for j r
      proof (cases j)
        case 0
        with that Answered show ?thesis by simp
      next
        case (Suc k)
        with that new(2) [rule_format, of k r] show ?thesis by simp
      qed
      with new(1) show ?thesis
        by (intro exI [of _ "?mid @ new"]) auto
    qed
  qed
qed

text \<open>
  C7. For every \<open>retries \<ge> 0\<close>, one call of \<open>http_get\<close> sends at most \<open>retries + 1\<close>
  requests. When it returns a response, that response has status 200 and is the answer to
  the first attempt that succeeded (every attempt before it failed or had another status).
  When every one of the \<open>retries + 1\<close> attempts fails it returns \<open>None\<close>: the result type
  has no exception. A 403 answer adds the line \<open>Error_forbidden\<close> to the log and is
  otherwise an unsuccessful attempt like any other.
\<close>

theorem http_get_bounded_retry:
  assumes "0 \<le> retries" and "http_get net req retries w = (res, w')"
  shows "int (clock w') \<le> int (clock w) + retries + 1 \<and>
    (\<forall>r. res = Some r \<longrightarrow>
       (\<exists>m. int m \<le> retries \<and> net (clock w + m) req = Answered r \<and> status_code r = 200 \<and>
            (\<forall>j<m. \<not> succeeds (net (clock w + j) req)) \<and> clock w' = clock w + m + 1)) \<and>
    (res = None \<longrightarrow>
       (\<forall>j. int j \<le> retries \<longrightarrow> \<not> succeeds (net (clock w + j) req)) \<and>
       int (clock w') = int (clock w) + retries + 1) \<and>
    (\<exists>new. w' = w @ new \<and>
       (\<forall>j r. clock w + j < clock w' \<and> net (clock w + j) req = Answered r \<and> status_code r = 403
          \<longrightarrow> Log Error_forbidden \<in> set new))"
proof -
  let ?n = "nat (retries + 1)"
  from assms(2) have loop: "http_get_loop net req retries 0 ?n False w = (res, w')"
    by (simp add: http_get_def)
  have some: "\<exists>m. int m \<le> retries \<and> net (clock w + m) req = Answered r \<and> status_code r = 200 \<and>
            (\<forall>j<m. \<not> succeeds (net (clock w + j) req)) \<and> clock w' = clock w + m + 1"
    if "res = Some r" for r
  proof -
    from loop that http_get_loop_Some [of net req retries 0 ?n False w r w']
    obtain m where "m < ?n" "net (clock w + m) req = Answered r" "status_code r = 200"
      "\<forall>j<m. \<not> succeeds (net (clock w + j) req)" "clock w' = clock w + m + 1"
      by auto
    moreover from \<open>m < ?n\<close> have "int m \<le> retries" by linarith
    ultimately show ?thesis by blast
  qed
  have none: "(\<forall>j. int j \<le> retries \<longrightarrow> \<not> succeeds (net (clock w + j) req)) \<and>
       int (clock w') = int (clock w) + retries + 1" if "res = None"
  proof -
    from loop that http_get_loop_None [of net req retries 0 ?n False w w']
    have *: "\<forall>j<?n. \<not> succeeds (net (clock w + j) req)" "clock w' = clock w + ?n"
      by auto
    have "\<not> succeeds (net (clock w + j) req)" if "int j \<le> retries" for j
    proof -
      from that have "j < ?n" by linarith
      with * show ?thesis by blast
    qed
    moreover from *(2) assms(1) have "int (clock w') = int (clock w) + retries + 1"
      by simp
    ultimately show ?thesis by blast
  qed
  have bound: "int (clock w') \<le> int (clock w) + retries + 1"
  proof (cases res)
    case None
    with none show ?thesis by simp
  next
    case (Some r)
    with some obtain m where "int m \<le> retries" "clock w' = clock w + m + 1" by blast
    then show ?thesis by simp
  qed
  from bound some none http_get_loop_flags [OF loop] show ?thesis
    by blast
qed

theorem http_get_bounded_retry_witness:
  "http_get net_403_then_200 ([], HF_HEADERS, []) 2 [] =
     (Some (Response 200 (Some JNull)),
      [Sent ([], HF_HEADERS, []), Log (Warn_status ([], HF_HEADERS, []) 403 1 3), Log Error_forbidden,
       Slept, Sent ([], HF_HEADERS, [])]) \<and>
   int (clock [Sent ([], HF_HEADERS, []), Log (Warn_status ([], HF_HEADERS, []) 403 1 3), Log Error_forbidden,
       Slept, Sent ([], HF_HEADERS, [])]) \<le> int (clock []) + 2 + 1"
proof -
  have run: "http_get net_403_then_200 ([], HF_HEADERS, []) 2 [] =
     (Some (Response 200 (Some JNull)),
      [Sent ([], HF_HEADERS, []), Log (Warn_status ([], HF_HEADERS, []) 403 1 3), Log Error_forbidden,
       Slept, Sent ([], HF_HEADERS, [])])"
    by (simp add: http_get_def net_403_then_200_def numeral_3_eq_3)
  from http_get_bounded_retry [OF _ run] show ?thesis
    using run by simp
qed

subsection \<open>pretty_math\<close>

lemma takeWhile_line_mid:
  "NL \<notin> set mid \<Longrightarrow>
   takeWhile (\<lambda>x. x \<noteq> NL) (mid @ CHR ''$'' # post) = mid @ CHR ''$'' # takeWhile (\<lambda>x. x \<noteq> NL) post"
  by (induction mid) auto

lemma dropWhile_not_in: "c \<notin> set xs \<Longrightarrow> dropWhile (\<lambda>x. x \<noteq> c) (xs @ c # ys) = c # ys"
  by (induction xs) auto

lemma takeWhile_not_in: "c \<notin> set xs \<Longrightarrow> takeWhile (\<lambda>x. x \<noteq> c) (xs @ c # ys) = xs"
  by (induction xs) auto

lemma math_span_at:
  assumes "CHR ''$'' \<notin> set pre" "NL \<notin> set mid"
    and "CHR ''$'' \<notin> set (takeWhile (\<lambda>x. x \<noteq> NL) post)"
  shows "math_span (pre @ CHR ''$'' # mid @ CHR ''$'' # post) = Some (length pre, length pre + length mid + 2)"
  using assms(1)
proof (induction pre)
  case Nil
  from assms(3) have "dropWhile (\<lambda>x. x \<noteq> CHR ''$'')
      (rev (takeWhile (\<lambda>x. x \<noteq> NL) post) @ CHR ''$'' # rev mid) = CHR ''$'' # rev mid"
    by (intro dropWhile_not_in) simp
  with assms(2) show ?case
    by (simp add: takeWhile_line_mid)
next
  case (Cons c pre)
  then show ?case by (auto simp: Let_def)
qed

lemma first_span_at:
  assumes "CHR ''$'' \<notin> set pre" "NL \<notin> set mid" "CHR ''$'' \<notin> set mid"
  shows "first_span (pre @ CHR ''$'' # mid @ CHR ''$'' # post) = Some (length pre, length pre + length mid + 2)"
  using assms(1)
proof (induction pre)
  case Nil
  with assms(2,3) show ?case
    by (simp add: takeWhile_line_mid takeWhile_not_in)
next
  case (Cons c pre)
  then show ?case by auto
qed

lemma math_span_none: "CHR ''$'' \<notin> set s \<Longrightarrow> math_span s = None"
  by (induction s) auto

lemma respace_at:
  "respace (pre @ CHR ''$'' # mid @ CHR ''$'' # post) (length pre, length pre + length mid + 2) =
           pre @ (if pre \<noteq> [] \<and> last pre \<noteq> CHR '' '' \<and> last pre \<noteq> CHR ''*'' then '' '' else [])
               @ ''$'' @ py_strip mid @ ''$''
               @ (if post \<noteq> [] \<and> hd post \<noteq> CHR '' '' \<and> hd post \<noteq> CHR ''*'' then '' '' else [])
               @ post"
proof -
  let ?s = "pre @ CHR ''$'' # mid @ CHR ''$'' # post"
  have t: "take (length pre) ?s = pre" by simp
  have d: "drop (length pre + length mid + 2) ?s = post" by simp
  have g: "take (length pre + length mid + 2 - length pre) (drop (length pre) ?s) = CHR ''$'' # mid @ [CHR ''$'']"
    by simp
  have b: "butlast (tl (CHR ''$'' # mid @ [CHR ''$''])) = mid"
    by (simp add: butlast_append)
  have l: "length pre + length mid + 2 < length ?s \<longleftrightarrow> post \<noteq> []" by auto
  show ?thesis
    unfolding respace_def
    apply (simp only: append_Cons append_Nil prod.case Let_def t d g b l)
    apply (cases "pre = []"; cases "post = []"; simp)
    done
qed

text \<open>
  C8, as the code has it. The regular expression is greedy, so on a line with more than one
  pair of \<open>$\<close> marks the treated span runs from the first \<open>$\<close> to the last one: in
  \<open>$ a $ and $b$c\<close> the inner blank before the second \<open>$\<close> stays and a space is put after the
  fourth \<open>$\<close>, where the first-span reading gives \<open>$a$ and $b$c\<close>.
\<close>

theorem pretty_math_first_span_counterexample:
  "pretty_math ''$ a $ and $b$c'' = ''$a $ and $b$ c'' \<and>
   pretty_math_first_span ''$ a $ and $b$c'' = ''$a$ and $b$c'' \<and>
   pretty_math ''$ a $ and $b$c'' \<noteq> pretty_math_first_span ''$ a $ and $b$c''"
  by (simp add: pretty_math_def pretty_math_first_span_def respace_def py_strip_def py_isspace_def)

text \<open>
  C8, amended. Let the line be \<open>pre $ mid $ post\<close>, where \<open>pre\<close> holds no \<open>$\<close>, \<open>mid\<close>
  no newline, and the rest of the line after the second delimiter no \<open>$\<close>: the two
  delimiters are the first and the last \<open>$\<close> of that line. Then \<open>pretty_math\<close> trims the
  whitespace at both ends of \<open>mid\<close>, puts one space before the first delimiter when the
  character before it is neither a space nor \<open>*\<close>, one space after the last delimiter when
  the character after it is neither a space nor \<open>*\<close>, and changes nothing else. When \<open>mid\<close>
  holds no \<open>$\<close>, that is, on a line with one pair of marks, this is the first-span reading.
\<close>

theorem pretty_math_span:
  assumes "CHR ''$'' \<notin> set pre" and "NL \<notin> set mid"
    and "CHR ''$'' \<notin> set (takeWhile (\<lambda>x. x \<noteq> NL) post)"
  shows "pretty_math (pre @ ''$'' @ mid @ ''$'' @ post) =
           pre @ (if pre \<noteq> [] \<and> last pre \<noteq> CHR '' '' \<and> last pre \<noteq> CHR ''*'' then '' '' else [])
               @ ''$'' @ py_strip mid @ ''$''
               @ (if post \<noteq> [] \<and> hd post \<noteq> CHR '' '' \<and> hd post \<noteq> CHR ''*'' then '' '' else [])
               @ post \<and>
         (CHR ''$'' \<notin> set mid \<longrightarrow>
            pretty_math_first_span (pre @ ''$'' @ mid @ ''$'' @ post) =
            pretty_math (pre @ ''$'' @ mid @ ''$'' @ post))"
proof -
  let ?s = "pre @ CHR ''$'' # mid @ CHR ''$'' # post"
  let ?span = "(length pre, length pre + length mid + 2)"
  have eq: "pre @ ''$'' @ mid @ ''$'' @ post = ?s"
    by simp
  have span: "math_span ?s = Some ?span"
    using assms by (rule math_span_at)
  have pm: "pretty_math ?s = respace ?s ?span"
    by (simp only: pretty_math_def span option.case)
  have "pretty_math_first_span ?s = pretty_math ?s" if "CHR ''$'' \<notin> set mid"
  proof -
    have "first_span ?s = Some ?span"
      using assms(1,2) that by (rule first_span_at)
    then show ?thesis
      by (simp only: pretty_math_first_span_def pm option.case)
  qed
  then show ?thesis
    unfolding eq by (simp only: pm respace_at) simp
qed

theorem pretty_math_span_witness:
  "CHR ''$'' \<notin> set ''Result on CIFAR-10 is '' \<and> NL \<notin> set ''x=0.9'' \<and>
   CHR ''$'' \<notin> set (takeWhile (\<lambda>x. x \<noteq> NL) ''great'') \<and>
   pretty_math ''Result on CIFAR-10 is $x=0.9$great'' = ''Result on CIFAR-10 is $x=0.9$ great'' \<and>
   pretty_math_first_span ''Result on CIFAR-10 is $x=0.9$great'' = ''Result on CIFAR-10 is $x=0.9$ great''"
  using pretty_math_span [of "''Result on CIFAR-10 is ''" "''x=0.9''" "''great''"]
  by (simp add: py_strip_def py_isspace_def)

subsection \<open>Dictionaries\<close>

lemma map_of_dict_set [simp]: "map_of (dict_set k v d) = (map_of d)(k \<mapsto> v)"
  by (induction d) (auto simp: fun_eq_iff)

lemma keys_dict_set:
  "map fst (dict_set k v d) = (if k \<in> fst ` set d then map fst d else map fst d @ [k])"
  by (induction d) (simp, force)

lemma distinct_dict_set: "distinct (map fst d) \<Longrightarrow> distinct (map fst (dict_set k v d))"
  by (simp add: keys_dict_set)

lemma set_keys_dict_set [simp]: "fst ` set (dict_set k v d) = insert k (fst ` set d)"
  using arg_cong [OF keys_dict_set [of k v d], of set] by (auto split: if_splits)

lemma map_of_dict_update: "map_of (dict_update d other) = map_of d ++ map_of (rev other)"
  unfolding dict_update_def
proof (induction other arbitrary: d)
  case Nil
  show ?case by simp
next
  case (Cons e other)
  obtain k v where e: "e = (k, v)" by (cases e)
  have "map_of (fold (\<lambda>(k, v). dict_set k v) other (dict_set k v d)) =
      map_of (dict_set k v d) ++ map_of (rev other)"
    by (rule Cons)
  also have "\<dots> = map_of d ++ map_of (rev (e # other))"
    by (rule ext) (simp add: e map_add_def split: option.splits)
  finally show ?case
    by (simp add: e)
qed

lemma set_keys_dict_update: "fst ` set (dict_update d other) = fst ` set d \<union> fst ` set other"
  unfolding dict_update_def
proof (induction other arbitrary: d)
  case Nil
  show ?case by simp
next
  case (Cons e other)
  obtain k v where e: "e = (k, v)" by (cases e)
  from Cons [of "dict_set k v d"] e show ?case
    by simp
qed

lemma keys_dict_update_present:
  "fst ` set other \<subseteq> fst ` set d \<Longrightarrow> map fst (dict_update d other) = map fst d"
  unfolding dict_update_def
proof (induction other arbitrary: d)
  case Nil
  show ?case by simp
next
  case (Cons e other)
  obtain k v where e: "e = (k, v)" by (cases e)
  with Cons.prems have k: "k \<in> fst ` set d" by auto
  then have keys: "map fst (dict_set k v d) = map fst d"
    by (simp add: keys_dict_set)
  from Cons.prems have "fst ` set other \<subseteq> fst ` set (dict_set k v d)"
    by auto
  from Cons.IH [OF this] keys e show ?case
    by simp
qed

lemma distinct_dict_update:
  "distinct (map fst d) \<Longrightarrow> distinct (map fst (dict_update d other))"
  unfolding dict_update_def
  by (induction other arbitrary: d) (auto simp: distinct_dict_set)

lemma dict_ext:
  "distinct (map fst a) \<Longrightarrow> map fst a = map fst b \<Longrightarrow> map_of a = map_of b \<Longrightarrow> a = b"
proof (induction a arbitrary: b)
  case Nil
  then show ?case by simp
next
  case (Cons x a)
  from Cons.prems(2) obtain y b' where b: "b = y # b'" "fst x = fst y" "map fst a = map fst b'"
    by (cases b) auto
  have "map_of (x # a) (fst x) = map_of b (fst x)"
    using Cons.prems(3) by (rule fun_cong)
  with b have xy: "x = y"
    by (cases x; cases y) simp
  have "map_of a = map_of b'"
  proof (rule ext)
    fix k
    show "map_of a k = map_of b' k"
    proof (cases "k = fst x")
      case True
      with Cons.prems(1) b(3) have "k \<notin> fst ` set a" "k \<notin> fst ` set b'"
        by (auto simp flip: set_map)
      then have "map_of a k = None" "map_of b' k = None"
        by (simp_all add: map_of_eq_None_iff)
      then show ?thesis
        by simp
    next
      case False
      have "map_of (x # a) k = map_of b k"
        using Cons.prems(3) by (rule fun_cong)
      with False b xy show ?thesis
        by (cases x) (simp split: if_splits)
    qed
  qed
  with Cons.IH [of b'] Cons.prems(1) b xy show ?case
    by simp
qed

lemma dict_update_noop:
  assumes "distinct (map fst d)" and "fst ` set other \<subseteq> fst ` set d"
    and "map_of d ++ map_of (rev other) = map_of d"
  shows "dict_update d other = d"
proof (rule dict_ext)
  show "distinct (map fst (dict_update d other))"
    using assms(1) by (rule distinct_dict_update)
  show "map fst (dict_update d other) = map fst d"
    using assms(2) by (rule keys_dict_update_present)
  show "map_of (dict_update d other) = map_of d"
    using assms(3) by (simp add: map_of_dict_update)
qed

lemma map_of_rev_distinct: "distinct (map fst p) \<Longrightarrow> map_of (rev p) = map_of p"
proof (induction p)
  case Nil
  show ?case by simp
next
  case (Cons x p)
  obtain k v where x: "x = (k, v)" by (cases x)
  with Cons.prems have "k \<notin> fst ` set p" by (auto simp flip: set_map)
  then have "map_of p k = None" by (simp add: map_of_eq_None_iff)
  then have "map_of [(k, v)] ++ map_of p = (map_of p)(k \<mapsto> v)"
    by (intro ext) (simp add: map_add_def split: option.splits)
  with Cons x show ?case by simp
qed

subsection \<open>Merging a discovery batch\<close>

lemma wf_store_Cons:
  "wf_store ((t, p) # s) \<longleftrightarrow> t \<notin> fst ` set s \<and> distinct (map fst p) \<and> wf_store s"
  by (auto simp: wf_store_def)

lemma wf_store_lookup: "wf_store s \<Longrightarrow> map_of s t = Some p \<Longrightarrow> distinct (map fst p)"
  by (induction s) (auto simp: wf_store_def split: if_splits)

lemma list_all_dict_set:
  "list_all P d \<Longrightarrow> P (k, v) \<Longrightarrow> list_all P (dict_set k v d)"
  by (induction d) auto

lemma wf_merge_topic:
  assumes "wf_store s" and "distinct (map fst p)"
  shows "wf_store (merge_topic s (t, p))"
proof (cases "map_of s t")
  case None
  with assms show ?thesis
    by (simp add: merge_topic_def wf_store_def distinct_dict_set list_all_dict_set)
next
  case (Some ex)
  with assms(1) have "distinct (map fst ex)" by (rule wf_store_lookup)
  then have "distinct (map fst (dict_update ex p))" by (rule distinct_dict_update)
  with Some assms(1) show ?thesis
    by (simp add: merge_topic_def wf_store_def distinct_dict_set list_all_dict_set)
qed

lemma wf_merge_data: "wf_store s \<Longrightarrow> wf_store data \<Longrightarrow> wf_store (merge_data s data)"
proof (induction data arbitrary: s)
  case Nil
  then show ?case by simp
next
  case (Cons e data)
  obtain t p where e: "e = (t, p)" by (cases e)
  with Cons.prems(2) have "distinct (map fst p)" "wf_store data"
    by (simp_all add: wf_store_Cons)
  with Cons.IH [of "merge_topic s (t, p)"] Cons.prems(1) e show ?case
    by (simp add: wf_merge_topic)
qed

lemma wf_merge_all:
  "wf_store s \<Longrightarrow> list_all wf_store b \<Longrightarrow> wf_store (merge_all s b)"
  by (induction b arbitrary: s) (auto simp: wf_merge_data)

lemma map_of_merge_topic:
  "map_of (merge_topic s (t, p)) t' =
     (if t' = t then Some (case map_of s t of Some ex \<Rightarrow> dict_update ex p | None \<Rightarrow> p)
      else map_of s t')"
  by (simp add: merge_topic_def split: option.splits)

lemma recs_merge_topic:
  assumes "distinct (map fst p)"
  shows "recs (merge_topic s (t, p)) t' = (if t' = t then recs s t ++ map_of p else recs s t')"
  using assms
  by (auto simp: recs_def map_of_merge_topic map_of_dict_update map_of_rev_distinct
      split: option.splits)

lemma recs_absent: "t \<notin> fst ` set s \<Longrightarrow> recs s t = Map.empty"
  by (simp add: recs_def map_of_eq_None_iff [THEN iffD2])

lemma recs_Cons: "recs ((t0, p) # s) t = (if t = t0 then map_of p else recs s t)"
  by (simp add: recs_def)

lemma recs_merge_data:
  "wf_store data \<Longrightarrow> recs (merge_data s data) t = recs s t ++ recs data t"
proof (induction data arbitrary: s)
  case Nil
  show ?case by (simp add: recs_def)
next
  case (Cons e data)
  obtain t0 p where e: "e = (t0, p)" by (cases e)
  with Cons.prems have wf: "t0 \<notin> fst ` set data" "distinct (map fst p)" "wf_store data"
    by (simp_all add: wf_store_Cons)
  from Cons.IH [OF wf(3), of "merge_topic s (t0, p)"] e wf(1,2) show ?case
    by (simp add: recs_merge_topic recs_Cons recs_absent)
qed

lemma recs_merge_all:
  "list_all wf_store b \<Longrightarrow> recs (merge_all s b) t = recs s t ++ incoming b t"
  by (induction b arbitrary: s) (simp_all add: recs_merge_data)

text \<open>A store covers an entry when it has the topic and every identifier of the entry.\<close>

lemma topics_merge_topic: "fst ` set (merge_topic s (t, p)) = insert t (fst ` set s)"
  by (simp add: merge_topic_def split: option.splits)

lemma keys_merge_topic_present:
  "t \<in> fst ` set s \<Longrightarrow> map fst (merge_topic s (t, p)) = map fst s"
  by (simp add: merge_topic_def keys_dict_set split: option.splits)


lemma map_of_Some_key: "map_of s t = Some p \<Longrightarrow> t \<in> fst ` set s"
  by (metis map_of_eq_None_iff option.distinct(1))

lemma ids_merge_topic:
  "ids (merge_topic s (t, p)) t' =
     (if t' = t then Some (case map_of s t of Some ex \<Rightarrow> map fst (dict_update ex p) | None \<Rightarrow> map fst p)
      else ids s t')"
  by (simp add: ids_def map_of_merge_topic split: option.splits)

lemma covers_merge_topic_keys:
  assumes "covers s (t, p)"
  shows "map fst (merge_topic s (t, p)) = map fst s" and "ids (merge_topic s (t, p)) = ids s"
proof -
  from assms obtain pm where pm: "map_of s t = Some pm" "fst ` set p \<subseteq> fst ` set pm"
    by (auto simp: covers_def ids_def split: option.splits)
  from pm(1) have "t \<in> fst ` set s" by (rule map_of_Some_key)
  then show "map fst (merge_topic s (t, p)) = map fst s"
    by (rule keys_merge_topic_present)
  from pm(2) have "map fst (dict_update pm p) = map fst pm"
    by (rule keys_dict_update_present)
  with pm(1) show "ids (merge_topic s (t, p)) = ids s"
    by (intro ext) (simp add: ids_merge_topic, simp add: ids_def)
qed

lemma covers_merge_topic_mono:
  assumes "covers s e"
  shows "covers (merge_topic s x) e"
proof -
  obtain t p where e: "e = (t, p)" by (cases e)
  obtain t0 p0 where x: "x = (t0, p0)" by (cases x)
  from assms e obtain pm where pm: "map_of s t = Some pm" "fst ` set p \<subseteq> fst ` set pm"
    by (auto simp: covers_def ids_def split: option.splits)
  show ?thesis
  proof (cases "t = t0")
    case True
    with pm have "fst ` set p \<subseteq> fst ` set (dict_update pm p0)"
      by (auto simp: set_keys_dict_update)
    with True pm(1) show ?thesis
      by (simp add: e x covers_def ids_merge_topic)
  next
    case False
    with pm show ?thesis
      by (simp add: e x covers_def ids_merge_topic) (simp add: ids_def)
  qed
qed

lemma covers_merge_topic_self: "covers (merge_topic s e) e"
proof -
  obtain t p where e: "e = (t, p)" by (cases e)
  show ?thesis
    by (auto simp: e covers_def ids_merge_topic set_keys_dict_update split: option.splits)
qed

lemma covers_merge_data_mono: "covers s e \<Longrightarrow> covers (merge_data s data) e"
  by (induction data arbitrary: s) (simp_all add: covers_merge_topic_mono)

lemma covers_merge_data_self: "e \<in> set data \<Longrightarrow> covers (merge_data s data) e"
proof (induction data arbitrary: s)
  case Nil
  then show ?case by simp
next
  case (Cons x data)
  show ?case
  proof (cases "e = x")
    case True
    then show ?thesis
      by (simp add: covers_merge_data_mono covers_merge_topic_self)
  next
    case False
    with Cons show ?thesis by simp
  qed
qed

lemma covers_merge_all_mono: "covers s e \<Longrightarrow> covers (merge_all s b) e"
  by (induction b arbitrary: s) (simp_all add: covers_merge_data_mono)

lemma covers_merge_all_self:
  "data \<in> set b \<Longrightarrow> e \<in> set data \<Longrightarrow> covers (merge_all s b) e"
proof (induction b arbitrary: s)
  case Nil
  then show ?case by simp
next
  case (Cons x b)
  show ?case
  proof (cases "data = x")
    case True
    with Cons.prems(2) show ?thesis
      by (simp add: covers_merge_all_mono covers_merge_data_self)
  next
    case False
    with Cons show ?thesis by simp
  qed
qed

lemma covers_cong: "ids s' = ids s \<Longrightarrow> covers s' e = covers s e"
  by (simp add: covers_def)

lemma keys_merge_data_covered:
  "\<forall>e\<in>set data. covers s e \<Longrightarrow>
   map fst (merge_data s data) = map fst s \<and> ids (merge_data s data) = ids s"
proof (induction data arbitrary: s)
  case Nil
  show ?case by simp
next
  case (Cons x data)
  obtain t p where x: "x = (t, p)" by (cases x)
  with Cons.prems have c: "covers s (t, p)" by simp
  note k = covers_merge_topic_keys [OF c]
  from Cons.prems have "\<forall>e\<in>set data. covers (merge_topic s (t, p)) e"
    by (simp add: covers_cong [OF k(2)])
  from Cons.IH [OF this] k x show ?case
    by simp
qed

lemma keys_merge_all_covered:
  "\<forall>data\<in>set b. \<forall>e\<in>set data. covers s e \<Longrightarrow>
   map fst (merge_all s b) = map fst s \<and> ids (merge_all s b) = ids s"
proof (induction b arbitrary: s)
  case Nil
  show ?case by simp
next
  case (Cons data b)
  then have "\<forall>e\<in>set data. covers s e" by simp
  note k = keys_merge_data_covered [OF this]
  from Cons.prems have "\<forall>d\<in>set b. \<forall>e\<in>set d. covers (merge_data s data) e"
    by (simp add: covers_cong [OF conjunct2 [OF k]])
  from Cons.IH [OF this] k show ?case
    by simp
qed

lemma store_ext:
  assumes "wf_store a" and "map fst a = map fst b" and "ids a = ids b" and "recs a = recs b"
  shows "a = b"
proof (rule dict_ext)
  show "distinct (map fst a)" using assms(1) by (simp add: wf_store_def)
  show "map fst a = map fst b" by (rule assms(2))
  show "map_of a = map_of b"
  proof (rule ext)
    fix t
    have i: "ids a t = ids b t" using assms(3) by simp
    have r: "recs a t = recs b t" using assms(4) by simp
    show "map_of a t = map_of b t"
    proof (cases "map_of a t")
      case None
      with i show ?thesis by (simp add: ids_def)
    next
      case (Some pa)
      with i obtain pb where pb: "map_of b t = Some pb" "map fst pa = map fst pb"
        by (cases "map_of b t") (auto simp: ids_def)
      from assms(1) Some have "distinct (map fst pa)" by (rule wf_store_lookup)
      moreover from r Some pb(1) have "map_of pa = map_of pb" by (simp add: recs_def)
      ultimately have "pa = pb" using pb(2) by (intro dict_ext)
      with Some pb(1) show ?thesis by simp
    qed
  qed
qed

lemma merge_all_idem:
  assumes "wf_store s" and "list_all wf_store b"
  shows "merge_all (merge_all s b) b = merge_all s b"
proof (rule store_ext)
  let ?m = "merge_all s b"
  have wf: "wf_store ?m" using assms by (rule wf_merge_all)
  have "\<forall>data\<in>set b. \<forall>e\<in>set data. covers ?m e"
    by (simp add: covers_merge_all_self)
  note k = keys_merge_all_covered [OF this]
  show "wf_store (merge_all ?m b)" using wf assms(2) by (rule wf_merge_all)
  show "map fst (merge_all ?m b) = map fst ?m" using k by simp
  show "ids (merge_all ?m b) = ids ?m" using k by simp
  show "recs (merge_all ?m b) = recs ?m"
    by (intro ext) (simp add: recs_merge_all [OF assms(2)] map_add_def split: option.splits)
qed

text \<open>
  C2. For a store and a batch as Python holds them (dictionaries, so distinct keys), the
  records of every topic after the merge are the old records overridden key by key by the
  batch's: an identifier the batch does not name for the topic keeps its record, one it
  names gets the batch's record (the last one when the batch names it twice), a topic of
  the store stays a topic, and merging the same batch again changes nothing.
\<close>

theorem merge_all_right_biased_union:
  assumes "wf_store s" and "list_all wf_store b"
  shows "recs (merge_all s b) t = recs s t ++ incoming b t \<and>
         (incoming b t k = None \<longrightarrow> recs (merge_all s b) t k = recs s t k) \<and>
         (\<forall>v. incoming b t k = Some v \<longrightarrow> recs (merge_all s b) t k = Some v) \<and>
         (t \<in> fst ` set s \<longrightarrow> t \<in> fst ` set (merge_all s b)) \<and>
         merge_all (merge_all s b) b = merge_all s b"
proof -
  have r: "recs (merge_all s b) t = recs s t ++ incoming b t"
    using assms(2) by (rule recs_merge_all)
  have "t \<in> fst ` set (merge_all s b)" if "t \<in> fst ` set s"
  proof -
    from that obtain p where "map_of s t = Some p"
      by (metis map_of_eq_None_iff not_Some_eq)
    then have "covers s (t, [])" by (simp add: covers_def ids_def)
    then have "covers (merge_all s b) (t, [])" by (rule covers_merge_all_mono)
    then obtain p' where "map_of (merge_all s b) t = Some p'"
      by (auto simp: covers_def ids_def split: option.splits)
    then show ?thesis by (rule map_of_Some_key)
  qed
  with r merge_all_idem [OF assms] show ?thesis
    by (simp add: map_add_def)
qed

theorem merge_all_right_biased_union_witness:
  "wf_store store_ex \<and> list_all wf_store batch_ex \<and>
   merge_all store_ex batch_ex =
     [(''SLAM'', [(''2101.00001'', ''old 1''), (''2101.00002'', ''new 2''), (''2101.00003'', ''new 3'')]),
      (''NeRF'', [(''2101.00004'', ''new 4'')])] \<and>
   recs (merge_all store_ex batch_ex) ''SLAM'' ''2101.00001'' = Some ''old 1'' \<and>
   merge_all (merge_all store_ex batch_ex) batch_ex = merge_all store_ex batch_ex"
proof -
  have wf: "wf_store store_ex" "list_all wf_store batch_ex"
    by (simp_all add: wf_store_def store_ex_def batch_ex_def)
  have m: "merge_all store_ex batch_ex =
     [(''SLAM'', [(''2101.00001'', ''old 1''), (''2101.00002'', ''new 2''), (''2101.00003'', ''new 3'')]),
      (''NeRF'', [(''2101.00004'', ''new 4'')])]"
    by (simp add: store_ex_def batch_ex_def merge_topic_def dict_update_def)
  have r: "recs (merge_all store_ex batch_ex) ''SLAM'' ''2101.00001'' = Some ''old 1''"
    by (simp add: m recs_def)
  have idem: "merge_all (merge_all store_ex batch_ex) batch_ex = merge_all store_ex batch_ex"
    using merge_all_right_biased_union [OF wf] by blast
  show ?thesis
    by (intro conjI wf m r idem)
qed

subsection \<open>The resolver chain\<close>

lemma http_get_sends:
  assumes "http_get net req 2 w = (r, w')"
  shows "clock w < clock w'"
proof (cases r)
  case None
  with assms have "http_get_loop net req 2 0 3 False w = (None, w')"
    by (simp add: http_get_def)
  from http_get_loop_None [OF this] show ?thesis by simp
next
  case (Some a)
  with assms have "http_get_loop net req 2 0 3 False w = (Some a, w')"
    by (simp add: http_get_def)
  from http_get_loop_Some [OF this] show ?thesis by auto
qed

lemma pick_loop_url: "pick_loop xs t = Inr v \<Longrightarrow> v = JNull \<or> truthy v"
  by (induction xs) (auto split: sum.splits if_splits)

lemma pick_url: "pick arr t = Inr v \<Longrightarrow> v = JNull \<or> truthy v"
  by (auto simp: pick_def split: if_splits json.splits dest: pick_loop_url)

lemma get_repo_from_hf_url:
  "get_repo_from_hf net k w = (v, w') \<Longrightarrow> v = JNull \<or> truthy v"
  by (auto simp: get_repo_from_hf_def Let_def bind_exn_def
      split: prod.splits option.splits sum.splits if_splits dest: pick_url)


lemma get_repo_from_hf_sends: "clock w < clock (snd (get_repo_from_hf net k w))"
proof -
  obtain r w1 where g: "http_get net (''https://huggingface.co/api/arxiv/'' @ k @ ''/repos'', HF_HEADERS, []) 2 w = (r, w1)"
    by (cases "http_get net (''https://huggingface.co/api/arxiv/'' @ k @ ''/repos'', HF_HEADERS, []) 2 w")
  from http_get_sends [OF g] g show ?thesis
    by (simp add: get_repo_from_hf_def split: option.splits sum.splits)
qed

lemma get_code_link_sends: "clock w < clock (snd (get_code_link net q w))"
proof -
  obtain r w1 where g: "http_get net (GITHUB_SEARCH_REPO, GH_HEADERS, search_params q) 2 w = (r, w1)"
    by (cases "http_get net (GITHUB_SEARCH_REPO, GH_HEADERS, search_params q) 2 w")
  from http_get_sends [OF g] g show ?thesis
    by (simp add: get_code_link_def split: option.splits sum.splits)
qed

lemma title_phrase_search_sends: "clock w < clock (snd (title_phrase_search net q w))"
  by (auto simp: title_phrase_search_def Let_def split: prod.splits dest: http_get_sends)

lemma arxiv_id_search_sends: "clock w < clock (snd (arxiv_id_search net q w))"
  by (auto simp: arxiv_id_search_def Let_def split: prod.splits dest: http_get_sends)

lemma readme_code_search_sends: "clock w < clock (snd (readme_code_search net q w))"
  by (auto simp: readme_code_search_def Let_def split: prod.splits dest: http_get_sends)

lemma find_code_repo_chain:
  "find_code_repo net ttl k author w =
     (let s2 = title_phrase_search net ttl w;
          s3 = arxiv_id_search net k (snd s2);
          s4 = readme_code_search net k (snd s3)
      in case fst s2 of
           Inr (Some u) \<Rightarrow> (u, snd s2)
         | Inl e \<Rightarrow> (JNull, snd s2 @ [Log (Error_find_code_repo e)])
         | Inr None \<Rightarrow>
             (case fst s3 of
                Inr (Some u) \<Rightarrow> (u, snd s3)
              | Inl e \<Rightarrow> (JNull, snd s3 @ [Log (Error_find_code_repo e)])
              | Inr None \<Rightarrow>
                  (case fst s4 of
                     Inr (Some u) \<Rightarrow> (u, snd s4)
                   | Inl e \<Rightarrow> (JNull, snd s4 @ [Log (Error_find_code_repo e)])
                   | Inr None \<Rightarrow> (JNull, snd s4))))"
proof -
  obtain o2 w2 where s2: "title_phrase_search net ttl w = (o2, w2)"
    by (cases "title_phrase_search net ttl w")
  obtain o3 w3 where s3: "arxiv_id_search net k w2 = (o3, w3)"
    by (cases "arxiv_id_search net k w2")
  obtain o4 w4 where s4: "readme_code_search net k w3 = (o4, w4)"
    by (cases "readme_code_search net k w3")
  show ?thesis
    by (simp add: find_code_repo_def Let_def s2 s3 s4 split: sum.splits option.splits)
qed

lemma find_code_repo_sends: "clock w < clock (snd (find_code_repo net ttl k author w))"
proof -
  note s2 = title_phrase_search_sends [of w net ttl]
  note s3 = arxiv_id_search_sends [of "snd (title_phrase_search net ttl w)" net k]
  note s4 = readme_code_search_sends
    [of "snd (arxiv_id_search net k (snd (title_phrase_search net ttl w)))" net k]
  from s2 s3 s4 show ?thesis
    by (simp add: find_code_repo_chain Let_def split: sum.splits option.splits)
qed

lemma resolve_backfill_chain:
  "resolve_backfill net ttl k author w =
     (let h = get_repo_from_hf net k w;
          f = find_code_repo net ttl k author (snd h);
          s5 = get_code_link net ttl (snd f);
          s6 = get_code_link net k (snd s5)
      in if truthy (fst h) then h else if truthy (fst f) then f
         else if truthy (fst s5) then s5 else s6)"
  by (simp add: resolve_backfill_def Let_def split: prod.splits)

lemma resolve_daily_backfill:
  "resolve_daily net ttl k author w = resolve_backfill net ttl k author w"
proof -
  obtain h w1 where h: "get_repo_from_hf net k w = (h, w1)"
    by (cases "get_repo_from_hf net k w")
  from get_repo_from_hf_url [OF h] h show ?thesis
    by (auto simp: resolve_daily_def resolve_backfill_def)
qed

text \<open>
  C1. Write \<open>h\<close> for the hub lookup run on the world the resolution starts in, \<open>s2\<close>, \<open>s3\<close>,
  \<open>s4\<close> for the title-phrase, identifier and code-content searches, each run on the world its
  predecessor leaves, \<open>f\<close> for \<open>find_code_repo\<close> (which runs these three), \<open>s5\<close> and \<open>s6\<close>
  for the bare title and bare identifier searches. A stage returns a URL when its value
  passes Python's truth test, which is what the \<^verbatim>\<open>or\<close> chains test; for the hub lookup
  that is the same as not being \<open>None\<close>. Then: when the hub lookup returns a URL both call
  sites return it and end in the world the hub lookup left; both call sites compute the
  same thing; the result and the final world are those of the first stage that returns a
  URL, of the last stage when none does; inside \<open>find_code_repo\<close> a search runs only when the
  searches before it found nothing (an exception ends the function). Every stage that runs
  sends at least one request, so a final world equal to the world after one stage means
  that no later stage was invoked.
\<close>

theorem resolver_first_success:
  "(let h = get_repo_from_hf net k w;
        s2 = title_phrase_search net ttl (snd h);
        s3 = arxiv_id_search net k (snd s2);
        s4 = readme_code_search net k (snd s3);
        f = find_code_repo net ttl k author (snd h);
        s5 = get_code_link net ttl (snd f);
        s6 = get_code_link net k (snd s5)
    in (fst h \<noteq> JNull \<longrightarrow>
          resolve_daily net ttl k author w = h \<and> resolve_backfill net ttl k author w = h)
     \<and> resolve_daily net ttl k author w = resolve_backfill net ttl k author w
     \<and> resolve_backfill net ttl k author w =
         (if truthy (fst h) then h else if truthy (fst f) then f
          else if truthy (fst s5) then s5 else s6)
     \<and> f = (case fst s2 of
              Inr (Some u) \<Rightarrow> (u, snd s2)
            | Inl e \<Rightarrow> (JNull, snd s2 @ [Log (Error_find_code_repo e)])
            | Inr None \<Rightarrow>
                (case fst s3 of
                   Inr (Some u) \<Rightarrow> (u, snd s3)
                 | Inl e \<Rightarrow> (JNull, snd s3 @ [Log (Error_find_code_repo e)])
                 | Inr None \<Rightarrow>
                     (case fst s4 of
                        Inr (Some u) \<Rightarrow> (u, snd s4)
                      | Inl e \<Rightarrow> (JNull, snd s4 @ [Log (Error_find_code_repo e)])
                      | Inr None \<Rightarrow> (JNull, snd s4))))
     \<and> clock w < clock (snd h) \<and> clock (snd h) < clock (snd s2)
     \<and> clock (snd s2) < clock (snd s3) \<and> clock (snd s3) < clock (snd s4)
     \<and> clock (snd h) < clock (snd f) \<and> clock (snd f) < clock (snd s5)
     \<and> clock (snd s5) < clock (snd s6))"
proof -
  obtain h w1 where h: "get_repo_from_hf net k w = (h, w1)"
    by (cases "get_repo_from_hf net k w")
  have hub: "resolve_backfill net ttl k author w = (h, w1)" if "h \<noteq> JNull"
    using get_repo_from_hf_url [OF h] that h by (simp add: resolve_backfill_def)
  have chain: "resolve_backfill net ttl k author w =
     (if truthy h then (h, w1)
      else if truthy (fst (find_code_repo net ttl k author w1)) then find_code_repo net ttl k author w1
      else if truthy (fst (get_code_link net ttl (snd (find_code_repo net ttl k author w1))))
      then get_code_link net ttl (snd (find_code_repo net ttl k author w1))
      else get_code_link net k (snd (get_code_link net ttl (snd (find_code_repo net ttl k author w1)))))"
    using h by (simp add: resolve_backfill_chain Let_def)
  show ?thesis
    unfolding Let_def h fst_conv snd_conv
    apply (intro conjI impI)
                apply (simp add: resolve_daily_backfill hub)
               apply (simp add: hub)
              apply (rule resolve_daily_backfill)
             apply (rule chain)
            apply (simp add: find_code_repo_chain Let_def)
    using get_repo_from_hf_sends [of w net k] h apply simp
          apply (rule title_phrase_search_sends)
         apply (rule arxiv_id_search_sends)
        apply (rule readme_code_search_sends)
       apply (rule find_code_repo_sends)
      apply (rule get_code_link_sends)
     apply (rule get_code_link_sends)
    done
qed

theorem resolver_first_success_witness:
  "fst (get_repo_from_hf net_hub_model ''2108.09112'' []) \<noteq> JNull \<and>
   resolve_daily net_hub_model ''A title'' ''2108.09112'' ''A. Author'' [] =
     (JStr ''https://huggingface.co/models/org/m'',
      [Sent (''https://huggingface.co/api/arxiv/2108.09112/repos'', HF_HEADERS, [])]) \<and>
   resolve_backfill net_hub_model ''A title'' ''2108.09112'' ''A. Author'' [] =
     (JStr ''https://huggingface.co/models/org/m'',
      [Sent (''https://huggingface.co/api/arxiv/2108.09112/repos'', HF_HEADERS, [])])"
proof -
  have h: "get_repo_from_hf net_hub_model ''2108.09112'' [] =
     (JStr ''https://huggingface.co/models/org/m'',
      [Sent (''https://huggingface.co/api/arxiv/2108.09112/repos'', HF_HEADERS, [])])"
    by (simp add: get_repo_from_hf_def http_get_def net_hub_model_def numeral_3_eq_3
        bind_exn_def json_of_def pick_def py_str_def)
  from resolver_first_success [of net_hub_model "''2108.09112''" "[]" "''A title''" "''A. Author''"]
  show ?thesis
    by (simp add: h Let_def)
qed

subsection \<open>Backfill\<close>

lemma backfill_record_parse_error:
  "parse_arxiv_string c = Inl e \<Longrightarrow>
   backfill_record net (k, c) w = (c, w @ [Log (Error_processing k c e)])"
  by (simp add: backfill_record_def)

lemma backfill_record_valid:
  "parse_arxiv_string c = Inr p \<Longrightarrow> \<not> py_in ''|null|'' (normal_row p) \<Longrightarrow>
   backfill_record net (k, c) w = (normal_row p, w)"
  by (simp add: backfill_record_def split: prod.splits)

lemma backfill_record_quiet:
  assumes "\<not> needs_link c"
  shows "\<exists>new. backfill_record net (k, c) w = (normalize c, w @ new) \<and> list_all quiet new"
proof (cases "parse_arxiv_string c")
  case (Inl e)
  then show ?thesis
    by (simp add: backfill_record_parse_error normalize_def)
next
  case (Inr p)
  with assms have "\<not> py_in ''|null|'' (normal_row p)"
    by (simp add: needs_link_def)
  with Inr have "backfill_record net (k, c) w = (normal_row p, w)"
    by (rule backfill_record_valid)
  with Inr show ?thesis
    by (simp add: normalize_def)
qed

lemma backfill_papers_quiet:
  "list_all (\<lambda>(k, c). \<not> needs_link c) v \<Longrightarrow>
   \<exists>new. backfill_papers net v w = (map (\<lambda>(k, c). (k, normalize c)) v, w @ new) \<and>
         list_all quiet new"
proof (induction v arbitrary: w)
  case Nil
  show ?case by simp
next
  case (Cons x v)
  obtain k c where x: "x = (k, c)" by (cases x)
  with Cons.prems have nl: "\<not> needs_link c" and rest: "list_all (\<lambda>(k, c). \<not> needs_link c) v"
    by simp_all
  from backfill_record_quiet [OF nl, of net k w] obtain n1 where
    n1: "backfill_record net (k, c) w = (normalize c, w @ n1)" "list_all quiet n1"
    by blast
  from Cons.IH [OF rest, of "w @ n1"] obtain n2 where
    n2: "backfill_papers net v (w @ n1) = (map (\<lambda>(k, c). (k, normalize c)) v, (w @ n1) @ n2)"
      "list_all quiet n2"
    by blast
  from n1 n2 x show ?case
    by (intro exI [of _ "n1 @ n2"]) simp
qed

lemma backfill_topics_quiet:
  "fully_resolved s \<Longrightarrow>
   \<exists>new. backfill_topics net s w =
           (normalize_store s, w @ new) \<and>
         list_all quiet new"
  unfolding normalize_store_def
proof (induction s arbitrary: w)
  case Nil
  show ?case by simp
next
  case (Cons x s)
  obtain t v where x: "x = (t, v)" by (cases x)
  with Cons.prems have v: "list_all (\<lambda>(k, c). \<not> needs_link c) v" and rest: "fully_resolved s"
    by (simp_all add: fully_resolved_def)
  from backfill_papers_quiet [OF v, of net "w @ [Log (Info_keywords t)]"] obtain n1 where
    n1: "backfill_papers net v (w @ [Log (Info_keywords t)]) =
           (map (\<lambda>(k, c). (k, normalize c)) v, (w @ [Log (Info_keywords t)]) @ n1)"
      "list_all quiet n1"
    by blast
  from Cons.IH [OF rest, of "(w @ [Log (Info_keywords t)]) @ n1"] obtain n2 where
    n2: "backfill_topics net s ((w @ [Log (Info_keywords t)]) @ n1) =
           (map (\<lambda>(t, v). (t, map (\<lambda>(k, c). (k, normalize c)) v)) s,
            ((w @ [Log (Info_keywords t)]) @ n1) @ n2)"
      "list_all quiet n2"
    by blast
  from n1 n2 x show ?case
    by (intro exI [of _ "Log (Info_keywords t) # n1 @ n2"]) simp
qed

lemma quiet_clock: "list_all quiet new \<Longrightarrow> clock new = 0"
proof (induction new)
  case Nil
  show ?case by simp
next
  case (Cons e new)
  then show ?case by (cases e) auto
qed

subsection \<open>Normal rows are fixed points of the parse\<close>

lemma py_split_nonempty [simp]: "py_split sep s \<noteq> []"
  by (induction s) (auto split: list.splits)

lemma py_split_no_sep: "p \<in> set (py_split sep s) \<Longrightarrow> sep \<notin> set p"
proof (induction s arbitrary: p)
  case Nil
  then show ?case by simp
next
  case (Cons c s)
  show ?case
  proof (cases "c = sep")
    case True
    with Cons show ?thesis by auto
  next
    case False
    obtain q qs where q: "py_split sep s = q # qs"
      by (cases "py_split sep s") simp_all
    with False Cons.prems have "p = c # q \<or> p \<in> set qs" by simp
    with Cons.IH [of q] Cons.IH [of p] q False show ?thesis by auto
  qed
qed

lemma py_split_append:
  "sep \<notin> set a \<Longrightarrow> py_split sep (a @ sep # rest) = a # py_split sep rest"
  by (induction a) auto

lemma py_split_single: "sep \<notin> set a \<Longrightarrow> py_split sep a = [a]"
  by (induction a) auto

lemma set_py_strip: "set (py_strip s) \<subseteq> set s"
  unfolding py_strip_def
  by (metis set_dropWhileD set_rev subsetI)

lemma last_dropWhile: "dropWhile P xs \<noteq> [] \<Longrightarrow> last (dropWhile P xs) = last xs"
  by (induction xs) (auto split: if_splits)

lemma py_strip_ends:
  "py_strip s = [] \<or> (\<not> py_isspace (hd (py_strip s)) \<and> \<not> py_isspace (last (py_strip s)))"
proof (cases "py_strip s = []")
  case True
  then show ?thesis by simp
next
  case False
  let ?t = "dropWhile py_isspace s"
  let ?r = "dropWhile py_isspace (rev ?t)"
  from False have r: "?r \<noteq> []" by (simp add: py_strip_def)
  then have t: "?t \<noteq> []" by (cases "?t = []") simp_all
  have "last (py_strip s) = hd ?r"
    using r by (simp add: py_strip_def last_rev)
  moreover have "\<not> py_isspace (hd ?r)"
    using r by (rule hd_dropWhile)
  moreover have "hd (py_strip s) = last ?r"
    using r by (simp add: py_strip_def hd_rev)
  moreover have "last ?r = last (rev ?t)"
    using r by (rule last_dropWhile)
  moreover have "last (rev ?t) = hd ?t"
    using t by (simp add: last_rev)
  moreover have "\<not> py_isspace (hd ?t)"
    using t by (rule hd_dropWhile)
  ultimately show ?thesis by simp
qed

lemma py_strip_fixed:
  assumes "s = [] \<or> (\<not> py_isspace (hd s) \<and> \<not> py_isspace (last s))"
  shows "py_strip s = s"
proof (cases "s = []")
  case True
  then show ?thesis by (simp add: py_strip_def)
next
  case False
  with assms have h: "\<not> py_isspace (hd s)" and l: "\<not> py_isspace (last s)" by auto
  from False h have 1: "dropWhile py_isspace s = s"
    by (cases s) auto
  from False l have 2: "dropWhile py_isspace (rev s) = rev s"
    by (cases "rev s") (auto simp: last_rev [symmetric] hd_rev)
  show ?thesis by (simp add: py_strip_def 1 2)
qed

lemma py_strip_idem [simp]: "py_strip (py_strip s) = py_strip s"
  using py_strip_ends by (rule py_strip_fixed)

lemma parse_arxiv_string_parts:
  assumes "parse_arxiv_string c = Inr (d, t, a, key, code, pdf)"
  shows "py_strip d = d \<and> py_strip t = t \<and> py_strip a = a \<and> py_strip pdf = pdf \<and>
         py_strip code = code \<and>
         CHR ''|'' \<notin> set d \<and> CHR ''|'' \<notin> set t \<and> CHR ''|'' \<notin> set a \<and> CHR ''|'' \<notin> set pdf \<and>
         CHR ''|'' \<notin> set code \<and>
         key = sub_version (case bracket_group pdf of Some g \<Rightarrow> py_strip g | None \<Rightarrow> pdf)"
proof -
  let ?parts = "py_split CHR ''|'' c"
  from assms have len: "5 < length ?parts"
    by (auto simp: parse_arxiv_string_def Let_def bind_exn_def py_index_def split: if_splits)
  with assms have eq: "d = py_strip (?parts ! 1)" "t = py_strip (?parts ! 2)"
    "a = py_strip (?parts ! 3)" "pdf = py_strip (?parts ! 4)" "code = py_strip (?parts ! 5)"
    "key = sub_version (case bracket_group pdf of Some g \<Rightarrow> py_strip g | None \<Rightarrow> pdf)"
    by (auto simp: parse_arxiv_string_def Let_def bind_exn_def py_index_def split: if_splits)
  have nosep: "CHR ''|'' \<notin> set (py_strip (?parts ! i))" if "i < length ?parts" for i
  proof -
    from that have "?parts ! i \<in> set ?parts" by simp
    then have "CHR ''|'' \<notin> set (?parts ! i)" by (rule py_split_no_sep)
    with set_py_strip [of "?parts ! i"] show ?thesis by blast
  qed
  from len eq nosep [of 1] nosep [of 2] nosep [of 3] nosep [of 4] nosep [of 5] show ?thesis
    by simp
qed

lemma py_split_normal_row:
  assumes "CHR ''|'' \<notin> set d" "CHR ''|'' \<notin> set t" "CHR ''|'' \<notin> set a" "CHR ''|'' \<notin> set pdf"
    "CHR ''|'' \<notin> set code"
  shows "py_split CHR ''|'' (normal_row (d, t, a, key, code, pdf)) = [[], d, t, a, pdf, code, [NL]]"
  using assms by (simp add: normal_row_def py_split_append py_split_single)

lemma parse_normal_row:
  assumes "parse_arxiv_string c = Inr p"
  shows "parse_arxiv_string (normal_row p) = Inr p"
proof -
  obtain d t a key code pdf where p: "p = (d, t, a, key, code, pdf)"
    by (cases p)
  note parts = parse_arxiv_string_parts [OF assms [unfolded p]]
  from parts have split: "py_split CHR ''|'' (normal_row p) = [[], d, t, a, pdf, code, [NL]]"
    unfolding p by (intro py_split_normal_row) simp_all
  from parts have s: "py_strip d = d" "py_strip t = t" "py_strip a = a" "py_strip pdf = pdf"
    "py_strip code = code"
    and key: "key = sub_version (case bracket_group pdf of Some g \<Rightarrow> py_strip g | None \<Rightarrow> pdf)"
    by simp_all
  show ?thesis
    unfolding parse_arxiv_string_def split Let_def
    apply (simp add: py_index_def bind_exn_def)
    unfolding s
    apply (simp add: p key)
    done
qed

lemma normalize_idem: "normalize (normalize c) = normalize c"
  by (cases "parse_arxiv_string c") (simp_all add: normalize_def parse_normal_row)

lemma needs_link_normalize: "needs_link (normalize c) = needs_link c"
  by (cases "parse_arxiv_string c") (simp_all add: normalize_def needs_link_def parse_normal_row)


lemma list_all_normalize:
  "list_all (\<lambda>(k, c). \<not> needs_link c) v \<Longrightarrow>
   list_all (\<lambda>(k, c). \<not> needs_link c) (map (\<lambda>(k, c). (k, normalize c)) v)"
  by (induction v) (auto simp: needs_link_normalize)

lemma fully_resolved_normalize_store: "fully_resolved s \<Longrightarrow> fully_resolved (normalize_store s)"
  unfolding fully_resolved_def normalize_store_def
  by (induction s) (auto simp: list_all_normalize)

lemma normalize_store_idem: "normalize_store (normalize_store s) = normalize_store s"
  unfolding normalize_store_def
  by (induction s) (auto simp: normalize_idem)

lemma parse_web_row_ex:
  "parse_arxiv_string (web_plain ''2021-08-20'' ''B title'' ''B. Author''
      ''https://arxiv.org/abs/2108.09113'') = Inl IndexError"
  by (simp add: parse_arxiv_string_def web_plain_def py_index_def bind_exn_def)

lemma parse_link_row_ex:
  "parse_arxiv_string (row_link ''2021-08-20'' ''A title'' ''A. Author'' ''2108.09112''
      ''https://arxiv.org/abs/2108.09112'' ''https://github.com/o/r'') =
   Inr (''**2021-08-20**'', ''**A title**'', ''A. Author et.al.'', ''2108.09112'',
        ''**[link](https://github.com/o/r)**'', ''[2108.09112](https://arxiv.org/abs/2108.09112)'')"
  by (simp add: parse_arxiv_string_def row_link_def py_index_def bind_exn_def py_strip_def
      py_isspace_def is_digit_def)

lemma fully_resolved_ex: "fully_resolved resolved_ex"
  by (simp add: fully_resolved_def resolved_ex_def needs_link_def parse_web_row_ex
      parse_link_row_ex normal_row_def)

lemma backfill_papers_append:
  "backfill_papers net (xs @ ys) w =
     (case backfill_papers net xs w of
        (xs', w1) \<Rightarrow> (case backfill_papers net ys w1 of (ys', w2) \<Rightarrow> (xs' @ ys', w2)))"
  by (induction xs arbitrary: w) (auto split: prod.splits)

lemma backfill_topics_append:
  "backfill_topics net (ts @ us) w =
     (case backfill_topics net ts w of
        (ts', w1) \<Rightarrow> (case backfill_topics net us w1 of (us', w2) \<Rightarrow> (ts' @ us', w2)))"
  by (induction ts arbitrary: w) (auto split: prod.splits)

lemma parse_arxiv_string_error: "parse_arxiv_string c = Inl e \<Longrightarrow> e = IndexError"
  by (auto simp: parse_arxiv_string_def Let_def bind_exn_def py_index_def split: if_splits)

text \<open>
  C4. Let the row \<open>c\<close> stored under \<open>k\<close> in topic \<open>t\<close> fail to parse (the only failure of the
  parse is the \<^verbatim>\<open>IndexError\<close> of a row with fewer than six parts). A pass over the whole
  store handles the topics before \<open>t\<close> and the rows of \<open>t\<close> before \<open>k\<close> as it would without
  that row, logs the failure, leaves \<open>c\<close> under \<open>k\<close> as it was, and goes on with the rows of
  \<open>t\<close> after \<open>k\<close> and with the topics after \<open>t\<close>.
\<close>

theorem backfill_parse_failure_skipped:
  assumes "parse_arxiv_string c = Inl e"
  shows "e = IndexError \<and>
         backfill_topics net (ts @ (t, xs @ (k, c) # ys) # us) w =
           (case backfill_topics net ts w of
              (ts', w0) \<Rightarrow>
                (case backfill_papers net xs (w0 @ [Log (Info_keywords t)]) of
                   (xs', w1) \<Rightarrow>
                     (case backfill_papers net ys (w1 @ [Log (Error_processing k c e)]) of
                        (ys', w2) \<Rightarrow>
                          (case backfill_topics net us w2 of
                             (us', w3) \<Rightarrow> (ts' @ (t, xs' @ (k, c) # ys') # us', w3)))))"
  using assms
  by (simp add: parse_arxiv_string_error backfill_topics_append backfill_papers_append
      backfill_record_parse_error split: prod.splits)

theorem backfill_parse_failure_skipped_witness:
  "parse_arxiv_string (web_plain ''2021-08-20'' ''B title'' ''B. Author''
      ''https://arxiv.org/abs/2108.09113'') = Inl IndexError \<and>
   backfill_topics net_403_then_200 resolved_ex [] =
     ([(''SLAM'',
        [(''2108.09113'', web_plain ''2021-08-20'' ''B title'' ''B. Author''
            ''https://arxiv.org/abs/2108.09113''),
         (''2108.09112'',
          ''|**2021-08-20**|**A title**|A. Author et.al.|[2108.09112](https://arxiv.org/abs/2108.09112)|**[link](https://github.com/o/r)**|'' @ [NL])])],
      [Log (Info_keywords ''SLAM''),
       Log (Error_processing ''2108.09113''
              (web_plain ''2021-08-20'' ''B title'' ''B. Author'' ''https://arxiv.org/abs/2108.09113'')
              IndexError)])"
proof -
  have r: "backfill_record net_403_then_200
      (''2108.09112'', row_link ''2021-08-20'' ''A title'' ''A. Author'' ''2108.09112''
           ''https://arxiv.org/abs/2108.09112'' ''https://github.com/o/r'') w =
      (''|**2021-08-20**|**A title**|A. Author et.al.|[2108.09112](https://arxiv.org/abs/2108.09112)|**[link](https://github.com/o/r)**|'' @ [NL], w)" for w
    by (simp add: backfill_record_def parse_link_row_ex normal_row_def)
  from backfill_parse_failure_skipped [OF parse_web_row_ex, of net_403_then_200 "[]" "''SLAM''" "[]"
      "''2108.09113''"
      "[(''2108.09112'', row_link ''2021-08-20'' ''A title'' ''A. Author'' ''2108.09112''
           ''https://arxiv.org/abs/2108.09112'' ''https://github.com/o/r'')]" "[]" "[]"]
  show ?thesis
    by (simp add: parse_web_row_ex resolved_ex_def r)
qed


subsection \<open>The unresolved marker\<close>

lemma py_in_prefix: "py_in pat (pat @ b)"
  by (cases pat; cases b) auto

lemma py_in_append: "py_in pat (a @ pat @ b)"
proof (induction a)
  case Nil
  show ?case using py_in_prefix by simp
next
  case (Cons x a)
  then show ?case by simp
qed

lemma py_in_row_null: "py_in ''|null|'' (row_null ut ttl author key url)"
proof -
  have "row_null ut ttl author key url =
      (''|**'' @ ut @ ''**|**'' @ ttl @ ''**|'' @ author @ '' et.al.|['' @ key @ '']('' @ url @ '')'')
        @ ''|null|'' @ [NL]"
    by (simp add: row_null_def)
  then show ?thesis
    by (simp only: py_in_append)
qed

lemma resolve_backfill_sends: "clock w < clock (snd (resolve_backfill net ttl k author w))"
proof -
  let ?h = "get_repo_from_hf net k w"
  let ?f = "find_code_repo net ttl k author (snd ?h)"
  let ?s5 = "get_code_link net ttl (snd ?f)"
  let ?s6 = "get_code_link net k (snd ?s5)"
  have 1: "clock w < clock (snd ?h)" by (rule get_repo_from_hf_sends)
  have 2: "clock (snd ?h) < clock (snd ?f)" by (rule find_code_repo_sends)
  have 3: "clock (snd ?f) < clock (snd ?s5)" by (rule get_code_link_sends)
  have 4: "clock (snd ?s5) < clock (snd ?s6)" by (rule get_code_link_sends)
  from 1 2 3 4 show ?thesis
    by (simp add: resolve_backfill_chain Let_def)
qed

lemma backfill_record_selected:
  assumes "parse_arxiv_string c = Inr (ut, ttl, author, key, code, pdf)" and "needs_link c"
  shows "backfill_record net (k, c) w =
     (case resolve_backfill net ttl key author (w @ [Log (Info_attempt key)]) of
        (u, w1) \<Rightarrow>
          if u \<noteq> JNull
          then (py_replace ''|null|'' (''|**[link]('' @ py_str u @ '')**|'')
                  (normal_row (ut, ttl, author, key, code, pdf)),
                w1 @ [Log (Info_found key
                  (py_replace ''|null|'' (''|**[link]('' @ py_str u @ '')**|'')
                     (normal_row (ut, ttl, author, key, code, pdf))))])
          else (normal_row (ut, ttl, author, key, code, pdf), w1))"
proof -
  from assms have "py_in ''|null|'' (normal_row (ut, ttl, author, key, code, pdf))"
    by (simp add: needs_link_def)
  with assms(1) show ?thesis
    by (simp add: backfill_record_def Let_def split: prod.splits)
qed

lemma backfill_record_invokes: "clock w < clock (snd (backfill_record net (k, c) w)) \<longleftrightarrow> needs_link c"
proof (cases "needs_link c")
  case False
  from backfill_record_quiet [OF False, of net k w] obtain new where
    "backfill_record net (k, c) w = (normalize c, w @ new)" "list_all quiet new"
    by blast
  with False show ?thesis
    by (simp add: quiet_clock)
next
  case True
  then obtain ut ttl author key code pdf where
    p: "parse_arxiv_string c = Inr (ut, ttl, author, key, code, pdf)"
    by (cases "parse_arxiv_string c") (auto simp: needs_link_def)
  obtain u w1 where r: "resolve_backfill net ttl key author (w @ [Log (Info_attempt key)]) = (u, w1)"
    by (cases "resolve_backfill net ttl key author (w @ [Log (Info_attempt key)])")
  from resolve_backfill_sends [of "w @ [Log (Info_attempt key)]" net ttl key author] r
  have "clock w < clock w1" by simp
  with True r show ?thesis
    by (simp add: backfill_record_selected [OF p True])
qed

lemma daily_paper_null:
  assumes "fst (resolve_daily net (res_title r) (paper_key_of (res_short_id r))
             (get_authors (res_authors r) True)
             (w @ [Log (Info_paper
                (case res_updated r of Some d \<Rightarrow> d
                 | None \<Rightarrow> (case res_published r of Some d \<Rightarrow> d | None \<Rightarrow> []))
                (res_title r) (get_authors (res_authors r) True))])) = JNull"
  shows "map_of (fst (daily_paper net r (content, web, w))) (paper_key_of (res_short_id r)) =
     Some (row_null
       (case res_updated r of Some d \<Rightarrow> d
        | None \<Rightarrow> (case res_published r of Some d \<Rightarrow> d | None \<Rightarrow> []))
       (res_title r) (get_authors (res_authors r) True) (paper_key_of (res_short_id r))
       (arxiv_url @ ''abs/'' @ paper_key_of (res_short_id r)))"
proof -
  let ?ut = "case res_updated r of Some d \<Rightarrow> d
             | None \<Rightarrow> (case res_published r of Some d \<Rightarrow> d | None \<Rightarrow> [])"
  obtain u w1 where r: "resolve_daily net (res_title r) (paper_key_of (res_short_id r))
             (get_authors (res_authors r) True)
             (w @ [Log (Info_paper ?ut (res_title r) (get_authors (res_authors r) True))]) = (u, w1)"
    by (cases "resolve_daily net (res_title r) (paper_key_of (res_short_id r))
             (get_authors (res_authors r) True)
             (w @ [Log (Info_paper ?ut (res_title r) (get_authors (res_authors r) True))])")
  with assms have "u = JNull" by simp
  with r show ?thesis
    by (simp add: daily_paper_def Let_def)
qed

lemma parse_null_row_ex:
  "parse_arxiv_string null_row_ex =
   Inr (''**2021-08-20**'', ''**A title**'', ''A. Author et.al.'', ''2108.09112'',
        ''null'', ''[2108.09112](https://arxiv.org/abs/2108.09112)'')"
  by (simp add: null_row_ex_def parse_arxiv_string_def row_null_def py_index_def bind_exn_def
      py_strip_def py_isspace_def is_digit_def)

lemma needs_link_null_row_ex: "needs_link null_row_ex"
  by (simp add: needs_link_def parse_null_row_ex normal_row_def)

lemma net_down_hub: "fst (get_repo_from_hf net_down k w) = JNull"
  by (simp add: get_repo_from_hf_def http_get_def net_down_def numeral_3_eq_3 Let_def)

lemma net_down_link: "fst (get_code_link net_down q w) = JNull"
  by (simp add: get_code_link_def http_get_def net_down_def numeral_3_eq_3)

lemma net_down_repo: "fst (find_code_repo net_down ttl k author w) = JNull"
  by (simp add: find_code_repo_def title_phrase_search_def arxiv_id_search_def
      readme_code_search_def first_hit_def http_get_def net_down_def numeral_3_eq_3 Let_def)

subsection \<open>Loading the store\<close>

lemma load_store_absent: "fs filename = None \<Longrightarrow> load_store json_loads fs filename = Inl FileNotFoundError"
  by (simp add: load_store_def)

lemma load_store_empty: "fs filename = Some [] \<Longrightarrow> load_store json_loads fs filename = Inr []"
  by (simp add: load_store_def)

subsection \<open>Rendering\<close>

lemma dict_set_new: "k \<notin> fst ` set d \<Longrightarrow> dict_set k v d = d @ [(k, v)]"
  by (induction d) auto

lemma sort_papers_fold:
  "distinct ks \<Longrightarrow> set ks \<inter> fst ` set out = {} \<Longrightarrow> set ks \<subseteq> fst ` set p \<Longrightarrow>
   fold (\<lambda>key output. case map_of p key of Some v \<Rightarrow> dict_set key v output | None \<Rightarrow> output) ks out
     = out @ map (\<lambda>k. (k, the (map_of p k))) ks"
proof (induction ks arbitrary: out)
  case Nil
  then show ?case by simp
next
  case (Cons k ks)
  from Cons.prems(3) have "k \<in> fst ` set p" by simp
  then obtain v where v: "map_of p k = Some v"
    by (metis map_of_eq_None_iff not_Some_eq)
  from Cons.prems(2) have "k \<notin> fst ` set out" by auto
  then have d: "dict_set k v out = out @ [(k, v)]" by (rule dict_set_new)
  have "set ks \<inter> fst ` set (out @ [(k, v)]) = {}"
    using Cons.prems(1,2) by auto
  with Cons.IH [of "out @ [(k, v)]"] Cons.prems(1,3)
  have "fold (\<lambda>key output. case map_of p key of Some v \<Rightarrow> dict_set key v output | None \<Rightarrow> output)
          ks (out @ [(k, v)]) = (out @ [(k, v)]) @ map (\<lambda>k. (k, the (map_of p k))) ks"
    by simp
  then show ?case by (simp add: v d)
qed

lemma sort_papers_distinct:
  assumes "distinct (map fst p)"
  shows "sort_papers p = map (\<lambda>k. (k, the (map_of p k))) (rev (sort (map fst p)))"
  unfolding sort_papers_def using assms by (subst sort_papers_fold) simp_all

lemma sort_papers_keys: "distinct (map fst p) \<Longrightarrow> map fst (sort_papers p) = rev (sort (map fst p))"
  by (simp add: sort_papers_distinct comp_def)

lemma sort_papers_descending:
  assumes "distinct (map fst p)"
  shows "sorted_wrt (\<lambda>a b. b < a) (map fst (sort_papers p))"
proof -
  have "sorted_wrt (<) (sort (map fst p))"
    using assms by (simp add: strict_sorted_iff)
  then show ?thesis
    by (simp add: sort_papers_keys [OF assms] sorted_wrt_rev)
qed

lemma sort_papers_set:
  assumes "distinct (map fst p)"
  shows "set (sort_papers p) = set p"
proof -
  have "(k, the (map_of p k)) \<in> set p" if "k \<in> fst ` set p" for k
  proof -
    from that obtain v where "map_of p k = Some v"
      by (metis map_of_eq_None_iff not_Some_eq)
    then show ?thesis by (simp add: map_of_SomeD)
  qed
  moreover have "\<exists>k' \<in> fst ` set p. (k, v) = (k', the (map_of p k'))" if "(k, v) \<in> set p" for k v
  proof -
    from that assms have "map_of p k = Some v" by simp
    with that show ?thesis by force
  qed
  ultimately show ?thesis
    by (auto simp: sort_papers_distinct [OF assms])
qed

lemma md_section_empty: "md_section today opts (t, []) = []"
  by (simp add: md_section_def)

lemma toc_line_empty: "toc_line (t, []) = []"
  by (simp add: toc_line_def)

lemma render_skip_empty: "render today opts (xs @ (t, []) # ys) = render today opts (xs @ ys)"
  by (simp add: render_def md_toc_def md_section_def toc_line_def)

lemma render_no_topics:
  "render today opts [] = md_header today opts @ (if use_tc opts then md_toc [] else []) @ md_footer opts"
  by (simp add: render_def)

lemma md_section_frame:
  "\<exists>pre post. \<forall>p. p \<noteq> [] \<longrightarrow>
     md_section today opts (t, p) = pre @ concat (map (\<lambda>(k, v). pretty_math v) (sort_papers p)) @ post"
  unfolding md_section_def
  by (intro exI [of _ "''## '' @ t @ [NL, NL] @ (if use_title opts
              then (if \<not> to_web opts
                    then ''|Publish Date|Title|Authors|PDF|Code|'' @ [NL]
                       @ ''|---|---|---|---|---|'' @ [NL]
                    else ''| Publish Date | Title | Authors | PDF | Code |'' @ [NL]
                       @ ''|:---------|:-----------------------|:---------|:------|:------|'' @ [NL])
              else [])"]
        exI [of _ "[NL] @ (if use_b2t opts
              then ''<p align=right>(<a href=''
                 @ py_lower (remove_char CHR ''.''
                     (replace_char CHR '' '' CHR ''-'' (''#Updated on '' @ date_now today)))
                 @ ''>back to top</a>)</p>'' @ [NL, NL]
              else [])"]) simp

text \<open>
  Claim C5, as stated: loading from a path whose file is absent yields the empty store and is
  not an error. It fails: \<^verbatim>\<open>open(filename, "r")\<close> raises \<open>FileNotFoundError\<close>, which none of
  the three operations handles; the daily merge, the backfill and the rendering all end with
  that exception, and nothing is written.
\<close>

theorem load_store_absent_counterexample:
  "load_store no_json (file_text fs_none) ''docs/cv-arxiv-daily.json'' \<noteq> Inr [] \<and>
   update_json_file no_json dump_ex fs_none ''docs/cv-arxiv-daily.json'' batch_ex
     = Inl FileNotFoundError \<and>
   update_paper_links no_json dump_ex net_down fs_none ''docs/cv-arxiv-daily.json'' []
     = (Inl FileNotFoundError, []) \<and>
   json_to_md no_json ''2026-11-03'' fs_none ''docs/cv-arxiv-daily.json'' ''README.md'' readme_options
     = Inl FileNotFoundError"
  by (simp add: load_store_def update_json_file_def update_paper_links_def json_to_md_def
      fs_none_def)

text \<open>
  Claim C5, amended: a file that exists and is empty is the empty store, for the load of each
  of the three operations, without the decoder being consulted, and the operation goes on
  as on the empty store: the daily merge writes the merge of the batch into the empty store,
  the backfill sends nothing and writes the empty store, the rendering writes the page of
  the empty store; each of them ends without an exception when the file it writes can be
  opened for writing. A path with no file is an error: the load and each of the three
  operations raise \<open>FileNotFoundError\<close>.
\<close>

theorem load_store_empty_file:
  "(file_text fs filename = Some [] \<longrightarrow>
      load_store json_loads (file_text fs) filename = Inr [] \<and>
      update_json_file json_loads json_dump fs filename data_dict
        = write_file fs filename (json_dump (merge_all [] data_dict)) \<and>
      update_paper_links json_loads json_dump net fs filename w
        = (write_file fs filename (json_dump []), w) \<and>
      json_to_md json_loads today fs filename md_filename opts
        = write_file fs md_filename (render today opts []) \<and>
      (write_error fs filename = None \<longrightarrow>
         update_json_file json_loads json_dump fs filename data_dict
           = Inr (fs\<lparr>file_text := (file_text fs)(filename \<mapsto> json_dump (merge_all [] data_dict))\<rparr>) \<and>
         update_paper_links json_loads json_dump net fs filename w
           = (Inr (fs\<lparr>file_text := (file_text fs)(filename \<mapsto> json_dump [])\<rparr>), w)) \<and>
      (write_error fs md_filename = None \<longrightarrow>
         json_to_md json_loads today fs filename md_filename opts
           = Inr (fs\<lparr>file_text := (file_text fs)(md_filename \<mapsto> render today opts [])\<rparr>))) \<and>
   (file_text fs filename = None \<longrightarrow>
      load_store json_loads (file_text fs) filename = Inl FileNotFoundError \<and>
      update_json_file json_loads json_dump fs filename data_dict = Inl FileNotFoundError \<and>
      update_paper_links json_loads json_dump net fs filename w = (Inl FileNotFoundError, w) \<and>
      json_to_md json_loads today fs filename md_filename opts = Inl FileNotFoundError)"
  by (simp add: load_store_empty load_store_absent update_json_file_def update_paper_links_def
      json_to_md_def write_file_def)

theorem load_store_empty_file_witness:
  "file_text fs_empty ''docs/cv-arxiv-daily.json'' = Some [] \<and>
   write_error fs_empty ''docs/cv-arxiv-daily.json'' = None \<and>
   write_error fs_empty ''README.md'' = None \<and>
   load_store no_json (file_text fs_empty) ''docs/cv-arxiv-daily.json'' = Inr [] \<and>
   update_json_file no_json dump_ex fs_empty ''docs/cv-arxiv-daily.json'' batch_ex
     = Inr (fs_empty\<lparr>file_text := (file_text fs_empty)
              (''docs/cv-arxiv-daily.json'' \<mapsto> dump_ex (merge_all [] batch_ex))\<rparr>) \<and>
   update_paper_links no_json dump_ex net_down fs_empty ''docs/cv-arxiv-daily.json'' []
     = (Inr (fs_empty\<lparr>file_text := (file_text fs_empty)
               (''docs/cv-arxiv-daily.json'' \<mapsto> dump_ex [])\<rparr>), []) \<and>
   json_to_md no_json ''2026-11-03'' fs_empty ''docs/cv-arxiv-daily.json'' ''README.md''
       readme_options
     = Inr (fs_empty\<lparr>file_text := (file_text fs_empty)
              (''README.md'' \<mapsto> render ''2026-11-03'' readme_options [])\<rparr>) \<and>
   file_text fs_none ''docs/cv-arxiv-daily.json'' = None \<and>
   load_store no_json (file_text fs_none) ''docs/cv-arxiv-daily.json'' = Inl FileNotFoundError"
proof -
  have e: "file_text fs_empty ''docs/cv-arxiv-daily.json'' = Some []"
    "write_error fs_empty ''docs/cv-arxiv-daily.json'' = None"
    "write_error fs_empty ''README.md'' = None"
    by (simp_all add: fs_empty_def)
  have n: "file_text fs_none ''docs/cv-arxiv-daily.json'' = None"
    by (simp add: fs_none_def)
  note t = load_store_empty_file [of fs_empty "''docs/cv-arxiv-daily.json''" no_json dump_ex
      batch_ex net_down "[]" "''2026-11-03''" "''README.md''" readme_options]
  note u = load_store_empty_file [of fs_none "''docs/cv-arxiv-daily.json''" no_json dump_ex
      batch_ex net_down "[]" "''2026-11-03''" "''README.md''" readme_options]
  from t e have l: "load_store no_json (file_text fs_empty) ''docs/cv-arxiv-daily.json'' = Inr []"
    by blast
  from t e have j: "update_json_file no_json dump_ex fs_empty ''docs/cv-arxiv-daily.json'' batch_ex
     = Inr (fs_empty\<lparr>file_text := (file_text fs_empty)
              (''docs/cv-arxiv-daily.json'' \<mapsto> dump_ex (merge_all [] batch_ex))\<rparr>)"
    by blast
  from t e have b: "update_paper_links no_json dump_ex net_down fs_empty
       ''docs/cv-arxiv-daily.json'' []
     = (Inr (fs_empty\<lparr>file_text := (file_text fs_empty)
               (''docs/cv-arxiv-daily.json'' \<mapsto> dump_ex [])\<rparr>), [])"
    by blast
  from t e have r: "json_to_md no_json ''2026-11-03'' fs_empty ''docs/cv-arxiv-daily.json''
       ''README.md'' readme_options
     = Inr (fs_empty\<lparr>file_text := (file_text fs_empty)
              (''README.md'' \<mapsto> render ''2026-11-03'' readme_options [])\<rparr>)"
    by blast
  from u n have a: "load_store no_json (file_text fs_none) ''docs/cv-arxiv-daily.json''
      = Inl FileNotFoundError"
    by blast
  show ?thesis
    by (intro conjI e n l j b r a)
qed

text \<open>
  Claim C9, as stated: rendering the same store with the same options twice produces
  byte-identical output. It fails across days: the page carries the date of the run, in the
  line \<open>Updated on\<close> and in the target of the back-to-top links, so the same store with the
  same options rendered on two days gives two different pages.
\<close>

theorem render_date_counterexample:
  "render ''2026-11-03'' readme_options [] \<noteq> render ''2026-11-04'' readme_options [] \<and>
   json_to_md no_json ''2026-11-03'' fs_empty ''docs/cv-arxiv-daily.json'' ''README.md''
       readme_options
     \<noteq> json_to_md no_json ''2026-11-04'' fs_empty ''docs/cv-arxiv-daily.json'' ''README.md''
       readme_options"
proof -
  have r: "render ''2026-11-03'' readme_options [] \<noteq> render ''2026-11-04'' readme_options []"
    by (simp add: render_def md_header_def readme_options_def date_now_def replace_char_def)
  have l: "load_store no_json (file_text fs_empty) ''docs/cv-arxiv-daily.json'' = Inr []"
    by (simp add: load_store_def fs_empty_def)
  have w: "write_error fs_empty ''README.md'' = None"
    by (simp add: fs_empty_def)
  have "file_text (fs_empty\<lparr>file_text := (file_text fs_empty)(''README.md'' \<mapsto> a)\<rparr>) ''README.md''
      \<noteq> file_text (fs_empty\<lparr>file_text := (file_text fs_empty)(''README.md'' \<mapsto> b)\<rparr>) ''README.md''"
    if "a \<noteq> b" for a b :: string
    using that by simp
  then have "fs_empty\<lparr>file_text := (file_text fs_empty)(''README.md'' \<mapsto> a)\<rparr>
      \<noteq> fs_empty\<lparr>file_text := (file_text fs_empty)(''README.md'' \<mapsto> b)\<rparr>"
    if "a \<noteq> b" for a b :: string
    using that by metis
  from this [OF r] r show ?thesis
    by (simp add: json_to_md_def write_file_def l w)
qed

text \<open>
  Claim C9, amended: the page is a function of the store, the options and the date of the
  run, and of nothing else: two renderings of the same store with the same options on the
  same date write the same text, whatever the output file held before. Within a topic whose
  identifiers are distinct, as the keys of a dictionary are, the records are exactly those of
  the topic, in strictly descending order of identifier, between a head and a foot that do
  not depend on the records. A topic with no records adds nothing, to the table of contents
  or to the sections. A store with no topics renders the header lines, the empty frame of
  the table of contents when that is enabled, and the badge definitions. Once the store is
  loaded, the only exception of the rendering is that of opening the output file: when the
  file can be opened for writing the page is written, and when it cannot, that exception is
  raised and nothing is written.
\<close>

theorem render_deterministic_on_date:
  "(load_store json_loads (file_text fs1) filename = Inr data \<and>
    load_store json_loads (file_text fs2) filename = Inr data \<longrightarrow>
      json_to_md json_loads today fs1 filename md_filename opts
        = write_file fs1 md_filename (render today opts data) \<and>
      json_to_md json_loads today fs2 filename md_filename opts
        = write_file fs2 md_filename (render today opts data) \<and>
      (write_error fs1 md_filename = None \<and> write_error fs2 md_filename = None \<longrightarrow>
         json_to_md json_loads today fs1 filename md_filename opts
           = Inr (fs1\<lparr>file_text := (file_text fs1)(md_filename \<mapsto> render today opts data)\<rparr>) \<and>
         json_to_md json_loads today fs2 filename md_filename opts
           = Inr (fs2\<lparr>file_text := (file_text fs2)(md_filename \<mapsto> render today opts data)\<rparr>)) \<and>
      (\<forall>e. write_error fs1 md_filename = Some e \<longrightarrow>
         json_to_md json_loads today fs1 filename md_filename opts = Inl e)) \<and>
   (distinct (map fst p) \<longrightarrow>
      sorted_wrt (\<lambda>a b. b < a) (map fst (sort_papers p)) \<and> set (sort_papers p) = set p) \<and>
   (\<exists>pre post. \<forall>q. q \<noteq> [] \<longrightarrow>
      md_section today opts (t, q)
        = pre @ concat (map (\<lambda>(k, v). pretty_math v) (sort_papers q)) @ post) \<and>
   md_section today opts (t, []) = [] \<and>
   toc_line (t, []) = [] \<and>
   render today opts (xs @ (t, []) # ys) = render today opts (xs @ ys) \<and>
   render today opts [] = md_header today opts @ (if use_tc opts then md_toc [] else []) @ md_footer opts \<and>
   (file_text fs1 filename = Some [] \<and> write_error fs1 md_filename = None \<longrightarrow>
      json_to_md json_loads today fs1 filename md_filename opts
        = Inr (fs1\<lparr>file_text := (file_text fs1)(md_filename \<mapsto> render today opts [])\<rparr>))"
proof (intro conjI impI allI)
  show "\<exists>pre post. \<forall>q. q \<noteq> [] \<longrightarrow>
      md_section today opts (t, q)
        = pre @ concat (map (\<lambda>(k, v). pretty_math v) (sort_papers q)) @ post"
    by (rule md_section_frame)
qed (simp_all add: json_to_md_def write_file_def load_store_empty md_section_empty toc_line_empty
      render_skip_empty render_no_topics sort_papers_descending sort_papers_set)

theorem render_deterministic_on_date_witness:
  "load_store loads_ex (file_text fs_old) ''docs/cv-arxiv-daily.json'' = Inr store_ex \<and>
   load_store loads_ex (file_text fs_new) ''docs/cv-arxiv-daily.json'' = Inr store_ex \<and>
   write_error fs_old ''README.md'' = None \<and>
   write_error fs_new ''README.md'' = None \<and>
   json_to_md loads_ex ''2026-11-03'' fs_old ''docs/cv-arxiv-daily.json'' ''README.md''
       readme_options
     = Inr (fs_old\<lparr>file_text := (file_text fs_old)
              (''README.md'' \<mapsto> render ''2026-11-03'' readme_options store_ex)\<rparr>) \<and>
   json_to_md loads_ex ''2026-11-03'' fs_new ''docs/cv-arxiv-daily.json'' ''README.md''
       readme_options
     = Inr (fs_new\<lparr>file_text := (file_text fs_new)
              (''README.md'' \<mapsto> render ''2026-11-03'' readme_options store_ex)\<rparr>) \<and>
   write_error fs_old ''out/README.md'' = Some FileNotFoundError \<and>
   json_to_md loads_ex ''2026-11-03'' fs_old ''docs/cv-arxiv-daily.json'' ''out/README.md''
       readme_options
     = Inl FileNotFoundError \<and>
   file_text fs_empty ''docs/cv-arxiv-daily.json'' = Some [] \<and>
   write_error fs_empty ''README.md'' = None \<and>
   json_to_md loads_ex ''2026-11-03'' fs_empty ''docs/cv-arxiv-daily.json'' ''README.md''
       readme_options
     = Inr (fs_empty\<lparr>file_text := (file_text fs_empty)
              (''README.md'' \<mapsto> render ''2026-11-03'' readme_options [])\<rparr>) \<and>
   distinct (map fst [(''2101.00001'', ''old 1''), (''2101.00002'', ''old 2'')]) \<and>
   sort_papers [(''2101.00001'', ''old 1''), (''2101.00002'', ''old 2'')]
     = [(''2101.00002'', ''old 2''), (''2101.00001'', ''old 1'')] \<and>
   sorted_wrt (\<lambda>a b. b < a)
     (map fst (sort_papers [(''2101.00001'', ''old 1''), (''2101.00002'', ''old 2'')])) \<and>
   render ''2026-11-03'' readme_options (store_ex @ (''NeRF'', []) # [])
     = render ''2026-11-03'' readme_options (store_ex @ [])"
proof -
  have l: "load_store loads_ex (file_text fs_old) ''docs/cv-arxiv-daily.json'' = Inr store_ex"
    "load_store loads_ex (file_text fs_new) ''docs/cv-arxiv-daily.json'' = Inr store_ex"
    by (simp_all add: load_store_def loads_ex_def fs_old_def fs_new_def)
  have e: "write_error fs_old ''README.md'' = None" "write_error fs_new ''README.md'' = None"
    by (simp_all add: fs_old_def fs_new_def)
  have x: "write_error fs_old ''out/README.md'' = Some FileNotFoundError"
    by (simp add: fs_old_def)
  have m: "file_text fs_empty ''docs/cv-arxiv-daily.json'' = Some []"
    "write_error fs_empty ''README.md'' = None"
    by (simp_all add: fs_empty_def)
  have d: "distinct (map fst [(''2101.00001'', ''old 1''), (''2101.00002'', ''old 2'')])"
    by simp
  have s: "sort_papers [(''2101.00001'', ''old 1''), (''2101.00002'', ''old 2'')]
     = [(''2101.00002'', ''old 2''), (''2101.00001'', ''old 1'')]"
    by (simp add: sort_papers_def less_char_def less_eq_char_def)
  note t = render_deterministic_on_date [of loads_ex fs_old
      "''docs/cv-arxiv-daily.json''" store_ex fs_new "''2026-11-03''" "''README.md''"
      readme_options "[(''2101.00001'', ''old 1''), (''2101.00002'', ''old 2'')]" "''NeRF''"
      store_ex "[]"]
  note t2 = render_deterministic_on_date [of loads_ex fs_old
      "''docs/cv-arxiv-daily.json''" store_ex fs_new "''2026-11-03''" "''out/README.md''"
      readme_options "[]" "''NeRF''" store_ex "[]"]
  note t3 = render_deterministic_on_date [of loads_ex fs_empty
      "''docs/cv-arxiv-daily.json''" store_ex fs_new "''2026-11-03''" "''README.md''"
      readme_options "[]" "''NeRF''" store_ex "[]"]
  from t l e have j1: "json_to_md loads_ex ''2026-11-03'' fs_old
       ''docs/cv-arxiv-daily.json'' ''README.md'' readme_options
     = Inr (fs_old\<lparr>file_text := (file_text fs_old)
              (''README.md'' \<mapsto> render ''2026-11-03'' readme_options store_ex)\<rparr>)"
    by blast
  from t l e have j2: "json_to_md loads_ex ''2026-11-03'' fs_new
       ''docs/cv-arxiv-daily.json'' ''README.md'' readme_options
     = Inr (fs_new\<lparr>file_text := (file_text fs_new)
              (''README.md'' \<mapsto> render ''2026-11-03'' readme_options store_ex)\<rparr>)"
    by blast
  from t2 l x have j3: "json_to_md loads_ex ''2026-11-03'' fs_old
       ''docs/cv-arxiv-daily.json'' ''out/README.md'' readme_options = Inl FileNotFoundError"
    by blast
  from t3 m have j4: "json_to_md loads_ex ''2026-11-03'' fs_empty
       ''docs/cv-arxiv-daily.json'' ''README.md'' readme_options
     = Inr (fs_empty\<lparr>file_text := (file_text fs_empty)
              (''README.md'' \<mapsto> render ''2026-11-03'' readme_options [])\<rparr>)"
    by blast
  from t d have o: "sorted_wrt (\<lambda>a b. b < a)
     (map fst (sort_papers [(''2101.00001'', ''old 1''), (''2101.00002'', ''old 2'')]))"
    by blast
  from t have k: "render ''2026-11-03'' readme_options (store_ex @ (''NeRF'', []) # [])
     = render ''2026-11-03'' readme_options (store_ex @ [])"
    by blast
  show ?thesis
    by (intro conjI l e x m d s o k j1 j2 j3 j4)
qed

lemma parse_pipe_title_row_ex:
  "parse_arxiv_string pipe_title_row_ex =
   Inr (''**2021-08-20**'', ''**Entropy of A'', ''B systems**'', ''A. Author et.al.'',
        ''[2108.09112](https://arxiv.org/abs/2108.09112)'', ''A. Author et.al.'')"
  by (simp add: pipe_title_row_ex_def parse_arxiv_string_def row_link_def py_index_def
      bind_exn_def py_strip_def py_isspace_def is_digit_def Let_def)

lemma parse_null_title_row_ex:
  "parse_arxiv_string null_title_row_ex =
   Inr (''**2021-08-20**'', ''**a'', ''null'', ''b**'', ''A. Author et.al.'', ''b**'')"
  by (simp add: null_title_row_ex_def parse_arxiv_string_def row_link_def py_index_def
      bind_exn_def py_strip_def py_isspace_def is_digit_def Let_def)

lemma parse_pipe_null_row_ex:
  "parse_arxiv_string pipe_null_row_ex =
   Inr (''**2021-08-20**'', ''**Measuring'', ''V_ub'', ''at Belle**'', ''A. Author et.al.'',
        ''at Belle**'')"
  by (simp add: pipe_null_row_ex_def parse_arxiv_string_def row_null_def py_index_def
      bind_exn_def py_strip_def py_isspace_def is_digit_def Let_def)

lemma http_get_down_clock: "clock (snd (http_get net_down req 2 w)) = clock w + 3"
  by (simp add: http_get_def net_down_def numeral_3_eq_3)

lemma hub_down_clock: "clock (snd (get_repo_from_hf net_down k w)) = clock w + 3"
  by (simp add: get_repo_from_hf_def http_get_def net_down_def numeral_3_eq_3 Let_def)

lemma link_down_clock: "clock (snd (get_code_link net_down q w)) = clock w + 3"
  by (simp add: get_code_link_def http_get_def net_down_def numeral_3_eq_3)

lemma repo_down_clock: "clock (snd (find_code_repo net_down ttl k author w)) = clock w + 9"
  by (simp add: find_code_repo_def title_phrase_search_def arxiv_id_search_def
      readme_code_search_def first_hit_def http_get_def net_down_def numeral_3_eq_3 Let_def)


lemma resolve_backfill_down:
  "fst (resolve_backfill net_down ttl k author w) = JNull \<and>
   clock (snd (resolve_backfill net_down ttl k author w)) = clock w + 18"
proof -
  let ?h = "get_repo_from_hf net_down k w"
  let ?f = "find_code_repo net_down ttl k author (snd ?h)"
  let ?s5 = "get_code_link net_down ttl (snd ?f)"
  let ?s6 = "get_code_link net_down k (snd ?s5)"
  have "fst ?h = JNull" "fst ?f = JNull" "fst ?s5 = JNull" "fst ?s6 = JNull"
    by (rule net_down_hub net_down_repo net_down_link)+
  moreover have "clock (snd ?s6) = clock w + 18"
    by (simp add: hub_down_clock repo_down_clock link_down_clock)
  ultimately show ?thesis
    by (simp add: resolve_backfill_chain Let_def)
qed

lemma backfill_pipe_title_row_ex:
  "backfill_record net (''2108.09112'', pipe_title_row_ex) w =
     (''|**2021-08-20**|**Entropy of A|B systems**|A. Author et.al.|[2108.09112](https://arxiv.org/abs/2108.09112)|'' @ [NL], w)"
  by (simp add: backfill_record_def parse_pipe_title_row_ex normal_row_def)

lemma backfill_null_title_row_ex:
  "fst (backfill_record net_down (''2108.09112'', null_title_row_ex) w) =
     ''|**2021-08-20**|**a|null|b**|A. Author et.al.|'' @ [NL] \<and>
   clock (snd (backfill_record net_down (''2108.09112'', null_title_row_ex) w)) = clock w + 18"
proof -
  obtain u w1 where r: "resolve_backfill net_down ''**a'' ''b**'' ''null''
      (w @ [Log (Info_attempt ''b**'')]) = (u, w1)"
    by (cases "resolve_backfill net_down ''**a'' ''b**'' ''null'' (w @ [Log (Info_attempt ''b**'')])")
  with resolve_backfill_down [of "''**a''" "''b**''" "''null''" "w @ [Log (Info_attempt ''b**'')]"]
  have "u = JNull" "clock w1 = clock w + 18" by simp_all
  with r show ?thesis
    by (simp add: backfill_record_def parse_null_title_row_ex normal_row_def)
qed

lemma backfill_pipe_null_row_ex:
  "py_in ''|null|'' pipe_null_row_ex \<and> \<not> needs_link pipe_null_row_ex \<and>
   backfill_record net (''2108.09112'', pipe_null_row_ex) w =
     (''|**2021-08-20**|**Measuring|V_ub|at Belle**|A. Author et.al.|'' @ [NL], w)"
proof -
  have "py_in ''|null|'' pipe_null_row_ex"
    unfolding pipe_null_row_ex_def by (rule py_in_row_null)
  then show ?thesis
    by (simp add: backfill_record_def needs_link_def parse_pipe_null_row_ex normal_row_def)
qed


subsection \<open>Rows whose fields do not hold the column separator\<close>

lemma py_split_cells:
  assumes "CHR ''|'' \<notin> set c1" "CHR ''|'' \<notin> set c2" "CHR ''|'' \<notin> set c3" "CHR ''|'' \<notin> set c4"
    "CHR ''|'' \<notin> set c5"
  shows "py_split CHR ''|'' (CHR ''|'' # c1 @ CHR ''|'' # c2 @ CHR ''|'' # c3 @ CHR ''|'' # c4
           @ CHR ''|'' # c5 @ CHR ''|'' # rest)
         = [] # c1 # c2 # c3 # c4 # c5 # py_split CHR ''|'' rest"
  using assms by (simp add: py_split_append)

lemma parse_cells:
  assumes "CHR ''|'' \<notin> set c1" "CHR ''|'' \<notin> set c2" "CHR ''|'' \<notin> set c3" "CHR ''|'' \<notin> set c4"
    "CHR ''|'' \<notin> set c5"
  shows "parse_arxiv_string (CHR ''|'' # c1 @ CHR ''|'' # c2 @ CHR ''|'' # c3 @ CHR ''|'' # c4
           @ CHR ''|'' # c5 @ CHR ''|'' # rest)
         = Inr (py_strip c1, py_strip c2, py_strip c3,
                sub_version (case bracket_group (py_strip c4) of
                               Some g \<Rightarrow> py_strip g | None \<Rightarrow> py_strip c4),
                py_strip c5, py_strip c4)"
  unfolding parse_arxiv_string_def py_split_cells [OF assms]
  by (simp add: py_index_def bind_exn_def Let_def)

lemma py_strip_stars: "py_strip (''**'' @ x @ ''**'') = ''**'' @ x @ ''**''"
  by (rule py_strip_fixed) (simp add: py_isspace_def)

lemma py_strip_pdf: "py_strip (''['' @ key @ '']('' @ url @ '')'') = ''['' @ key @ '']('' @ url @ '')''"
  by (rule py_strip_fixed) (simp add: py_isspace_def)

lemma py_strip_null: "py_strip ''null'' = ''null''"
  by (rule py_strip_fixed) (simp add: py_isspace_def)

lemma py_strip_author:
  "py_strip (a @ '' et.al.'') =
     (if \<forall>x\<in>set a. py_isspace x then ''et.al.'' else dropWhile py_isspace a @ '' et.al.'')"
proof -
  have ns: "\<not> py_isspace CHR ''.''" "py_isspace CHR '' ''" "\<not> py_isspace CHR ''e''"
    by (simp_all add: py_isspace_def)
  show ?thesis
    by (simp add: py_strip_def dropWhile_append ns)
qed

lemma py_strip_author_not_null: "py_strip (a @ '' et.al.'') \<noteq> ''null''"
proof
  assume "py_strip (a @ '' et.al.'') = ''null''"
  then have "last (py_strip (a @ '' et.al.'')) = CHR ''l''" by simp
  moreover have "last (py_strip (a @ '' et.al.'')) = CHR ''.''"
    by (simp add: py_strip_author)
  ultimately show False by simp
qed

lemma py_replace_skip:
  "CHR ''|'' \<notin> set x \<Longrightarrow> py_replace ''|null|'' new (x @ rest) = x @ py_replace ''|null|'' new rest"
  by (induction x) auto

lemma take_cell:
  "sep \<notin> set x \<Longrightarrow> sep \<notin> set y \<Longrightarrow> take (Suc (length y)) (x @ sep # rest) = y @ [sep] \<Longrightarrow> x = y"
proof (induction x arbitrary: y)
  case Nil
  then show ?case by (cases y) auto
next
  case (Cons a x)
  then show ?case by (cases y) auto
qed

lemma py_replace_no_match:
  "take (length old) (c # cs) \<noteq> old \<Longrightarrow> py_replace old new (c # cs) = c # py_replace old new cs"
  by simp

lemma py_replace_cell:
  assumes "CHR ''|'' \<notin> set x" and "x \<noteq> ''null''"
  shows "py_replace ''|null|'' new (CHR ''|'' # x @ CHR ''|'' # rest)
         = CHR ''|'' # x @ py_replace ''|null|'' new (CHR ''|'' # rest)"
proof -
  have "take (length ''|null|'') (CHR ''|'' # x @ CHR ''|'' # rest) \<noteq> ''|null|''"
  proof
    assume "take (length ''|null|'') (CHR ''|'' # x @ CHR ''|'' # rest) = ''|null|''"
    then have "take (Suc (length ''null'')) (x @ CHR ''|'' # rest) = ''null'' @ [CHR ''|'']"
      by (simp del: take_append)
    then have "x = ''null''"
      by (rule take_cell [OF assms(1), rotated]) simp
    with assms(2) show False by simp
  qed
  then have "py_replace ''|null|'' new (CHR ''|'' # x @ CHR ''|'' # rest)
      = CHR ''|'' # py_replace ''|null|'' new (x @ CHR ''|'' # rest)"
    by (rule py_replace_no_match)
  then show ?thesis
    by (simp only: py_replace_skip [OF assms(1)])
qed

lemma py_replace_null_cell:
  "py_replace ''|null|'' new [CHR ''|'', CHR ''n'', CHR ''u'', CHR ''l'', CHR ''l'', CHR ''|'', NL]
     = new @ [NL]"
  by simp


lemma py_replace_row:
  assumes "CHR ''|'' \<notin> set d" "CHR ''|'' \<notin> set t" "CHR ''|'' \<notin> set a" "CHR ''|'' \<notin> set pdf"
    and "d \<noteq> ''null''" "t \<noteq> ''null''" "a \<noteq> ''null''" "pdf \<noteq> ''null''"
  shows "py_replace ''|null|'' new (normal_row (d, t, a, key, ''null'', pdf))
         = CHR ''|'' # d @ CHR ''|'' # t @ CHR ''|'' # a @ CHR ''|'' # pdf @ new @ [NL]"
proof -
  have "normal_row (d, t, a, key, ''null'', pdf)
      = CHR ''|'' # d @ CHR ''|'' # t @ CHR ''|'' # a @ CHR ''|'' # pdf @ CHR ''|'' # ''null|'' @ [NL]"
    by (simp add: normal_row_def)
  then show ?thesis
    by (simp only: py_replace_cell [OF assms(1,5)] py_replace_cell [OF assms(2,6)]
        py_replace_cell [OF assms(3,7)] py_replace_cell [OF assms(4,8)] py_replace_null_cell
        append_Cons append_Nil append_assoc)
qed


lemma row_null_cells:
  "row_null ut ttl a key url =
     CHR ''|'' # (''**'' @ ut @ ''**'') @ CHR ''|'' # (''**'' @ ttl @ ''**'') @ CHR ''|'' # (a @ '' et.al.'')
       @ CHR ''|'' # (''['' @ key @ '']('' @ url @ '')'') @ CHR ''|'' # ''null'' @ CHR ''|'' # [NL]"
  by (simp add: row_null_def)

lemma row_link_cells:
  "row_link ut ttl a key url repo =
     CHR ''|'' # (''**'' @ ut @ ''**'') @ CHR ''|'' # (''**'' @ ttl @ ''**'') @ CHR ''|'' # (a @ '' et.al.'')
       @ CHR ''|'' # (''['' @ key @ '']('' @ url @ '')'') @ CHR ''|'' # (''**[link]('' @ repo @ '')**'')
       @ CHR ''|'' # [NL]"
  by (simp add: row_link_def)

lemma parse_row_null:
  assumes "CHR ''|'' \<notin> set ut" "CHR ''|'' \<notin> set ttl" "CHR ''|'' \<notin> set a" "CHR ''|'' \<notin> set key"
    "CHR ''|'' \<notin> set url"
  shows "parse_arxiv_string (row_null ut ttl a key url) =
     Inr (''**'' @ ut @ ''**'', ''**'' @ ttl @ ''**'', py_strip (a @ '' et.al.''),
          sub_version (case bracket_group (''['' @ key @ '']('' @ url @ '')'') of
                         Some g \<Rightarrow> py_strip g | None \<Rightarrow> ''['' @ key @ '']('' @ url @ '')''),
          ''null'', ''['' @ key @ '']('' @ url @ '')'')"
proof -
  have "parse_arxiv_string (row_null ut ttl a key url) =
     Inr (py_strip (''**'' @ ut @ ''**''), py_strip (''**'' @ ttl @ ''**''), py_strip (a @ '' et.al.''),
          sub_version (case bracket_group (py_strip (''['' @ key @ '']('' @ url @ '')'')) of
                         Some g \<Rightarrow> py_strip g | None \<Rightarrow> py_strip (''['' @ key @ '']('' @ url @ '')'')),
          py_strip ''null'', py_strip (''['' @ key @ '']('' @ url @ '')''))"
    unfolding row_null_cells using assms by (intro parse_cells) simp_all
  then show ?thesis
    by (simp only: py_strip_stars py_strip_pdf py_strip_null)
qed

lemma needs_link_row_null:
  assumes "CHR ''|'' \<notin> set ut" "CHR ''|'' \<notin> set ttl" "CHR ''|'' \<notin> set a" "CHR ''|'' \<notin> set key"
    "CHR ''|'' \<notin> set url"
  shows "needs_link (row_null ut ttl a key url)"
proof -
  let ?p = "(''**'' @ ut @ ''**'', ''**'' @ ttl @ ''**'', py_strip (a @ '' et.al.''),
          sub_version (case bracket_group (''['' @ key @ '']('' @ url @ '')'') of
                         Some g \<Rightarrow> py_strip g | None \<Rightarrow> ''['' @ key @ '']('' @ url @ '')''),
          ''null'', ''['' @ key @ '']('' @ url @ '')'')"
  have "normal_row ?p =
      (''|**'' @ ut @ ''**|**'' @ ttl @ ''**|'' @ py_strip (a @ '' et.al.'') @ ''|['' @ key @ '']('' @ url @ '')'')
        @ ''|null|'' @ [NL]"
    by (simp add: normal_row_def)
  then have "py_in ''|null|'' (normal_row ?p)"
    by (simp only: py_in_append)
  then show ?thesis
    by (simp only: needs_link_def parse_row_null [OF assms] sum.case)
qed


lemma backfill_row_null:
  assumes "CHR ''|'' \<notin> set ut" "CHR ''|'' \<notin> set ttl" "CHR ''|'' \<notin> set a" "CHR ''|'' \<notin> set key"
    "CHR ''|'' \<notin> set url"
  shows "backfill_record net (k, row_null ut ttl a key url) w =
     (let author = py_strip (a @ '' et.al.'');
          pdf = ''['' @ key @ '']('' @ url @ '')'';
          paper_key = sub_version (case bracket_group pdf of Some g \<Rightarrow> py_strip g | None \<Rightarrow> pdf)
      in case resolve_backfill net (''**'' @ ttl @ ''**'') paper_key author
                (w @ [Log (Info_attempt paper_key)]) of
           (u, w1) \<Rightarrow>
             if u \<noteq> JNull
             then (''|**'' @ ut @ ''**|**'' @ ttl @ ''**|'' @ author @ ''|'' @ pdf
                     @ ''|**[link]('' @ py_str u @ '')**|'' @ [NL],
                   w1 @ [Log (Info_found paper_key
                     (''|**'' @ ut @ ''**|**'' @ ttl @ ''**|'' @ author @ ''|'' @ pdf
                        @ ''|**[link]('' @ py_str u @ '')**|'' @ [NL]))])
             else (''|**'' @ ut @ ''**|**'' @ ttl @ ''**|'' @ author @ ''|'' @ pdf @ ''|null|'' @ [NL],
                   w1))"
proof -
  let ?author = "py_strip (a @ '' et.al.'')"
  let ?pdf = "''['' @ key @ '']('' @ url @ '')''"
  let ?key = "sub_version (case bracket_group ?pdf of Some g \<Rightarrow> py_strip g | None \<Rightarrow> ?pdf)"
  let ?p = "(''**'' @ ut @ ''**'', ''**'' @ ttl @ ''**'', ?author, ?key, ''null'', ?pdf)"
  note sel = backfill_record_selected [OF parse_row_null [OF assms] needs_link_row_null [OF assms],
      of net k w]
  have au: "CHR ''|'' \<notin> set ?author"
    using assms(3) set_py_strip [of "a @ '' et.al.''"] by auto
  have rep: "py_replace ''|null|'' new (normal_row ?p)
      = CHR ''|'' # (''**'' @ ut @ ''**'') @ CHR ''|'' # (''**'' @ ttl @ ''**'') @ CHR ''|'' # ?author
          @ CHR ''|'' # ?pdf @ new @ [NL]" for new
    using assms au py_strip_author_not_null [of a] by (intro py_replace_row) simp_all
  have nr: "normal_row ?p
      = ''|**'' @ ut @ ''**|**'' @ ttl @ ''**|'' @ ?author @ ''|'' @ ?pdf @ ''|null|'' @ [NL]"
    by (simp add: normal_row_def)
  show ?thesis
    apply (simp only: sel)
    apply (simp only: rep)
    apply (simp only: nr Let_def)
    apply (simp split: prod.splits)
    done
qed

text \<open>
  C10. (1) In discovery, when the hub lookup, \<open>find_code_repo\<close> and the two bare searches
  all return \<open>None\<close> for a paper, all four have run and the row stored under the key of the
  paper is the row with the cell \<open>null\<close>, which holds \<open>|null|\<close>; when the resolution returns
  a URL the row stored is the row with the link to it, and whenever it returns \<open>None\<close> the
  row stored is the row with the cell \<open>null\<close>. (2) A backfill pass invokes the
  resolver for a row (and then sends a request) exactly when the row parses and its normal
  form holds \<open>|null|\<close>. (3) For such a row the pass stores the normal form when the chain
  returns \<open>None\<close>; otherwise it stores the normal form with \<open>|null|\<close> replaced by
  \<open>|**[link](url)**|\<close>, the cell between the bars being the link. (4) The row that discovery
  stores for an unresolved paper is selected by the backfill when none of its fields holds
  the column separator, and a successful resolution then turns it into the same row with
  the link in its last cell. The condition is needed: the row stored for the unresolved
  paper with the title \<open>Measuring |V_ub| at Belle\<close> holds \<open>|null|\<close> and is not selected.
\<close>

theorem unresolved_marker:
  "(let ttl = res_title r;
        author = get_authors (res_authors r) True;
        ut = (case res_updated r of Some d \<Rightarrow> d
              | None \<Rightarrow> (case res_published r of Some d \<Rightarrow> d | None \<Rightarrow> []));
        key = paper_key_of (res_short_id r);
        url = arxiv_url @ ''abs/'' @ key;
        w0 = w @ [Log (Info_paper ut ttl author)];
        h = get_repo_from_hf net key w0;
        f = find_code_repo net ttl key author (snd h);
        s5 = get_code_link net ttl (snd f);
        s6 = get_code_link net key (snd s5)
    in (fst h = JNull \<and> fst f = JNull \<and> fst s5 = JNull \<and> fst s6 = JNull \<longrightarrow>
          daily_paper net r (content, web, w) =
            (dict_set key (row_null ut ttl author key url) content,
             dict_set key (web_plain ut ttl author url) web, snd s6) \<and>
          py_in ''|null|'' (row_null ut ttl author key url)) \<and>
       (\<forall>u w1. resolve_daily net ttl key author w0 = (u, w1) \<and> u \<noteq> JNull \<longrightarrow>
          daily_paper net r (content, web, w) =
            (dict_set key (row_link ut ttl author key url (py_str u)) content,
             dict_set key (web_link ut ttl author url (py_str u)) web, w1)) \<and>
       (\<forall>w1. resolve_daily net ttl key author w0 = (JNull, w1) \<longrightarrow>
          daily_paper net r (content, web, w) =
            (dict_set key (row_null ut ttl author key url) content,
             dict_set key (web_plain ut ttl author url) web, w1)))
   \<and> (clock w < clock (snd (backfill_record net (k, c) w)) \<longleftrightarrow> needs_link c)
   \<and> (\<forall>ut ttl author key code pdf.
        parse_arxiv_string c = Inr (ut, ttl, author, key, code, pdf) \<and> needs_link c \<longrightarrow>
          backfill_record net (k, c) w =
            (case resolve_backfill net ttl key author (w @ [Log (Info_attempt key)]) of
               (u, w1) \<Rightarrow>
                 if u \<noteq> JNull
                 then (py_replace ''|null|'' (''|**[link]('' @ py_str u @ '')**|'')
                         (normal_row (ut, ttl, author, key, code, pdf)),
                       w1 @ [Log (Info_found key
                         (py_replace ''|null|'' (''|**[link]('' @ py_str u @ '')**|'')
                            (normal_row (ut, ttl, author, key, code, pdf))))])
                 else (normal_row (ut, ttl, author, key, code, pdf), w1)))
   \<and> (CHR ''|'' \<notin> set date0 \<and> CHR ''|'' \<notin> set title0 \<and> CHR ''|'' \<notin> set author0 \<and>
       CHR ''|'' \<notin> set key0 \<and> CHR ''|'' \<notin> set url0 \<longrightarrow>
         needs_link (row_null date0 title0 author0 key0 url0) \<and>
         backfill_record net (k, row_null date0 title0 author0 key0 url0) w =
           (let author = py_strip (author0 @ '' et.al.'');
                pdf = ''['' @ key0 @ '']('' @ url0 @ '')'';
                paper_key = sub_version (case bracket_group pdf of
                                           Some g \<Rightarrow> py_strip g | None \<Rightarrow> pdf)
            in case resolve_backfill net (''**'' @ title0 @ ''**'') paper_key author
                      (w @ [Log (Info_attempt paper_key)]) of
                 (u, w1) \<Rightarrow>
                   if u \<noteq> JNull
                   then (''|**'' @ date0 @ ''**|**'' @ title0 @ ''**|'' @ author @ ''|'' @ pdf
                           @ ''|**[link]('' @ py_str u @ '')**|'' @ [NL],
                         w1 @ [Log (Info_found paper_key
                           (''|**'' @ date0 @ ''**|**'' @ title0 @ ''**|'' @ author @ ''|'' @ pdf
                              @ ''|**[link]('' @ py_str u @ '')**|'' @ [NL]))])
                   else (''|**'' @ date0 @ ''**|**'' @ title0 @ ''**|'' @ author @ ''|'' @ pdf
                           @ ''|null|'' @ [NL],
                         w1)))
   \<and> py_in ''|null|'' pipe_null_row_ex \<and> \<not> needs_link pipe_null_row_ex"
proof -
  let ?ttl = "res_title r"
  let ?author = "get_authors (res_authors r) True"
  let ?ut = "case res_updated r of Some d \<Rightarrow> d
              | None \<Rightarrow> (case res_published r of Some d \<Rightarrow> d | None \<Rightarrow> [])"
  let ?key = "paper_key_of (res_short_id r)"
  let ?url = "arxiv_url @ ''abs/'' @ ?key"
  let ?w0 = "w @ [Log (Info_paper ?ut ?ttl ?author)]"
  let ?h = "get_repo_from_hf net ?key ?w0"
  let ?f = "find_code_repo net ?ttl ?key ?author (snd ?h)"
  let ?s5 = "get_code_link net ?ttl (snd ?f)"
  let ?s6 = "get_code_link net ?key (snd ?s5)"
  have a: "daily_paper net r (content, web, w) =
            (dict_set ?key (row_null ?ut ?ttl ?author ?key ?url) content,
             dict_set ?key (web_plain ?ut ?ttl ?author ?url) web, snd ?s6)"
    if "fst ?h = JNull" "fst ?f = JNull" "fst ?s5 = JNull" "fst ?s6 = JNull"
  proof -
    from that have "resolve_daily net ?ttl ?key ?author ?w0 = (JNull, snd ?s6)"
      by (simp add: resolve_daily_backfill resolve_backfill_chain Let_def prod_eq_iff)
    then show ?thesis
      by (simp add: daily_paper_def Let_def)
  qed
  have b: "daily_paper net r (content, web, w) =
            (dict_set ?key (row_link ?ut ?ttl ?author ?key ?url (py_str u)) content,
             dict_set ?key (web_link ?ut ?ttl ?author ?url (py_str u)) web, w1)"
    if "resolve_daily net ?ttl ?key ?author ?w0 = (u, w1)" "u \<noteq> JNull" for u w1
    using that by (simp add: daily_paper_def Let_def)
  have n: "daily_paper net r (content, web, w) =
            (dict_set ?key (row_null ?ut ?ttl ?author ?key ?url) content,
             dict_set ?key (web_plain ?ut ?ttl ?author ?url) web, w1)"
    if "resolve_daily net ?ttl ?key ?author ?w0 = (JNull, w1)" for w1
    using that by (simp add: daily_paper_def Let_def)
  have 1: "(let ttl = res_title r;
        author = get_authors (res_authors r) True;
        ut = (case res_updated r of Some d \<Rightarrow> d
              | None \<Rightarrow> (case res_published r of Some d \<Rightarrow> d | None \<Rightarrow> []));
        key = paper_key_of (res_short_id r);
        url = arxiv_url @ ''abs/'' @ key;
        w0 = w @ [Log (Info_paper ut ttl author)];
        h = get_repo_from_hf net key w0;
        f = find_code_repo net ttl key author (snd h);
        s5 = get_code_link net ttl (snd f);
        s6 = get_code_link net key (snd s5)
    in (fst h = JNull \<and> fst f = JNull \<and> fst s5 = JNull \<and> fst s6 = JNull \<longrightarrow>
          daily_paper net r (content, web, w) =
            (dict_set key (row_null ut ttl author key url) content,
             dict_set key (web_plain ut ttl author url) web, snd s6) \<and>
          py_in ''|null|'' (row_null ut ttl author key url)) \<and>
       (\<forall>u w1. resolve_daily net ttl key author w0 = (u, w1) \<and> u \<noteq> JNull \<longrightarrow>
          daily_paper net r (content, web, w) =
            (dict_set key (row_link ut ttl author key url (py_str u)) content,
             dict_set key (web_link ut ttl author url (py_str u)) web, w1)) \<and>
       (\<forall>w1. resolve_daily net ttl key author w0 = (JNull, w1) \<longrightarrow>
          daily_paper net r (content, web, w) =
            (dict_set key (row_null ut ttl author key url) content,
             dict_set key (web_plain ut ttl author url) web, w1)))"
    unfolding Let_def using a b n py_in_row_null by blast
  have 4: "CHR ''|'' \<notin> set date0 \<and> CHR ''|'' \<notin> set title0 \<and> CHR ''|'' \<notin> set author0 \<and>
       CHR ''|'' \<notin> set key0 \<and> CHR ''|'' \<notin> set url0 \<longrightarrow>
         needs_link (row_null date0 title0 author0 key0 url0) \<and>
         backfill_record net (k, row_null date0 title0 author0 key0 url0) w =
           (let author = py_strip (author0 @ '' et.al.'');
                pdf = ''['' @ key0 @ '']('' @ url0 @ '')'';
                paper_key = sub_version (case bracket_group pdf of
                                           Some g \<Rightarrow> py_strip g | None \<Rightarrow> pdf)
            in case resolve_backfill net (''**'' @ title0 @ ''**'') paper_key author
                      (w @ [Log (Info_attempt paper_key)]) of
                 (u, w1) \<Rightarrow>
                   if u \<noteq> JNull
                   then (''|**'' @ date0 @ ''**|**'' @ title0 @ ''**|'' @ author @ ''|'' @ pdf
                           @ ''|**[link]('' @ py_str u @ '')**|'' @ [NL],
                         w1 @ [Log (Info_found paper_key
                           (''|**'' @ date0 @ ''**|**'' @ title0 @ ''**|'' @ author @ ''|'' @ pdf
                              @ ''|**[link]('' @ py_str u @ '')**|'' @ [NL]))])
                   else (''|**'' @ date0 @ ''**|**'' @ title0 @ ''**|'' @ author @ ''|'' @ pdf
                           @ ''|null|'' @ [NL],
                         w1))"
  proof (intro impI conjI; elim conjE)
    assume p: "CHR ''|'' \<notin> set date0" "CHR ''|'' \<notin> set title0" "CHR ''|'' \<notin> set author0"
      "CHR ''|'' \<notin> set key0" "CHR ''|'' \<notin> set url0"
    show "needs_link (row_null date0 title0 author0 key0 url0)"
      using p by (rule needs_link_row_null)
    show "backfill_record net (k, row_null date0 title0 author0 key0 url0) w =
           (let author = py_strip (author0 @ '' et.al.'');
                pdf = ''['' @ key0 @ '']('' @ url0 @ '')'';
                paper_key = sub_version (case bracket_group pdf of
                                           Some g \<Rightarrow> py_strip g | None \<Rightarrow> pdf)
            in case resolve_backfill net (''**'' @ title0 @ ''**'') paper_key author
                      (w @ [Log (Info_attempt paper_key)]) of
                 (u, w1) \<Rightarrow>
                   if u \<noteq> JNull
                   then (''|**'' @ date0 @ ''**|**'' @ title0 @ ''**|'' @ author @ ''|'' @ pdf
                           @ ''|**[link]('' @ py_str u @ '')**|'' @ [NL],
                         w1 @ [Log (Info_found paper_key
                           (''|**'' @ date0 @ ''**|**'' @ title0 @ ''**|'' @ author @ ''|'' @ pdf
                              @ ''|**[link]('' @ py_str u @ '')**|'' @ [NL]))])
                   else (''|**'' @ date0 @ ''**|**'' @ title0 @ ''**|'' @ author @ ''|'' @ pdf
                           @ ''|null|'' @ [NL],
                         w1))"
      using p by (rule backfill_row_null)
  qed
  have 3: "\<forall>ut ttl author key code pdf.
        parse_arxiv_string c = Inr (ut, ttl, author, key, code, pdf) \<and> needs_link c \<longrightarrow>
          backfill_record net (k, c) w =
            (case resolve_backfill net ttl key author (w @ [Log (Info_attempt key)]) of
               (u, w1) \<Rightarrow>
                 if u \<noteq> JNull
                 then (py_replace ''|null|'' (''|**[link]('' @ py_str u @ '')**|'')
                         (normal_row (ut, ttl, author, key, code, pdf)),
                       w1 @ [Log (Info_found key
                         (py_replace ''|null|'' (''|**[link]('' @ py_str u @ '')**|'')
                            (normal_row (ut, ttl, author, key, code, pdf))))])
                 else (normal_row (ut, ttl, author, key, code, pdf), w1))"
    by (intro allI impI backfill_record_selected) simp_all
  have 5: "py_in ''|null|'' pipe_null_row_ex" "\<not> needs_link pipe_null_row_ex"
    using backfill_pipe_null_row_ex by simp_all
  show ?thesis
    by (intro conjI 1 3 4 5 backfill_record_invokes)
qed

theorem unresolved_marker_witness:
  "fst (daily_paper net_down result_ex ([], [], [])) = [(''2108.09112'', null_row_ex)] \<and>
   fst (snd (daily_paper net_down result_ex ([], [], []))) =
     [(''2108.09112'', web_plain ''2021-08-20'' ''A title'' ''A. Author''
         ''https://arxiv.org/abs/2108.09112'')] \<and>
   py_in ''|null|'' null_row_ex \<and>
   daily_paper net_hub_model result_ex ([], [], []) =
     ([(''2108.09112'', row_link ''2021-08-20'' ''A title'' ''A. Author'' ''2108.09112''
          ''https://arxiv.org/abs/2108.09112'' ''https://huggingface.co/models/org/m'')],
      [(''2108.09112'', web_link ''2021-08-20'' ''A title'' ''A. Author''
          ''https://arxiv.org/abs/2108.09112'' ''https://huggingface.co/models/org/m'')],
      [Log (Info_paper ''2021-08-20'' ''A title'' ''A. Author''),
       Sent (''https://huggingface.co/api/arxiv/2108.09112/repos'', HF_HEADERS, [])]) \<and>
   needs_link null_row_ex \<and>
   clock [] < clock (snd (backfill_record net_hub_model (''2108.09112'', null_row_ex) [])) \<and>
   backfill_record net_hub_model (''2108.09112'', null_row_ex) [] =
     (row_link ''2021-08-20'' ''A title'' ''A. Author'' ''2108.09112''
        ''https://arxiv.org/abs/2108.09112'' ''https://huggingface.co/models/org/m'',
      [Log (Info_attempt ''2108.09112''),
       Sent (''https://huggingface.co/api/arxiv/2108.09112/repos'', HF_HEADERS, []),
       Log (Info_found ''2108.09112''
         (row_link ''2021-08-20'' ''A title'' ''A. Author'' ''2108.09112''
            ''https://arxiv.org/abs/2108.09112'' ''https://huggingface.co/models/org/m''))])"
proof -
  have h: "get_repo_from_hf net_hub_model ''2108.09112'' w =
     (JStr ''https://huggingface.co/models/org/m'',
      w @ [Sent (''https://huggingface.co/api/arxiv/2108.09112/repos'', HF_HEADERS, [])])" for w
    by (simp add: get_repo_from_hf_def http_get_def net_hub_model_def numeral_3_eq_3
        bind_exn_def json_of_def pick_def py_str_def)
  have rb: "resolve_backfill net_hub_model ''**A title**'' ''2108.09112'' ''A. Author et.al.''
             [Log (Info_attempt ''2108.09112'')] =
     (JStr ''https://huggingface.co/models/org/m'',
      [Log (Info_attempt ''2108.09112''),
       Sent (''https://huggingface.co/api/arxiv/2108.09112/repos'', HF_HEADERS, [])])"
    by (simp add: resolve_backfill_def h)
  have rd: "resolve_daily net_hub_model ''A title'' ''2108.09112'' ''A. Author''
             [Log (Info_paper ''2021-08-20'' ''A title'' ''A. Author'')] =
     (JStr ''https://huggingface.co/models/org/m'',
      [Log (Info_paper ''2021-08-20'' ''A title'' ''A. Author''),
       Sent (''https://huggingface.co/api/arxiv/2108.09112/repos'', HF_HEADERS, [])])"
    by (simp add: resolve_daily_def h)
  have d: "daily_paper net_down result_ex ([], [], []) =
      ([(''2108.09112'', null_row_ex)],
       [(''2108.09112'', web_plain ''2021-08-20'' ''A title'' ''A. Author''
           ''https://arxiv.org/abs/2108.09112'')],
       snd (get_code_link net_down ''2108.09112''
         (snd (get_code_link net_down ''A title''
           (snd (find_code_repo net_down ''A title'' ''2108.09112'' ''A. Author''
             (snd (get_repo_from_hf net_down ''2108.09112''
               [Log (Info_paper ''2021-08-20'' ''A title'' ''A. Author'')]))))))))"
    and n: "py_in ''|null|'' null_row_ex"
    using unresolved_marker [where r = result_ex and w = "[]" and net = net_down
        and content = "[]" and web = "[]", THEN conjunct1]
    by (simp_all add: Let_def net_down_hub net_down_link net_down_repo result_ex_def
        paper_key_of_takeWhile get_authors_def arxiv_url_def null_row_ex_def)
  have "\<forall>u w1. resolve_daily net_hub_model ''A title'' ''2108.09112'' ''A. Author''
             [Log (Info_paper ''2021-08-20'' ''A title'' ''A. Author'')] = (u, w1) \<and> u \<noteq> JNull \<longrightarrow>
          daily_paper net_hub_model result_ex ([], [], []) =
            ([(''2108.09112'', row_link ''2021-08-20'' ''A title'' ''A. Author'' ''2108.09112''
                 ''https://arxiv.org/abs/2108.09112'' (py_str u))],
             [(''2108.09112'', web_link ''2021-08-20'' ''A title'' ''A. Author''
                 ''https://arxiv.org/abs/2108.09112'' (py_str u))], w1)"
    using unresolved_marker [where r = result_ex and w = "[]" and net = net_hub_model
        and content = "[]" and web = "[]", THEN conjunct1]
    by (simp add: Let_def result_ex_def paper_key_of_takeWhile get_authors_def arxiv_url_def)
  with rd have l: "daily_paper net_hub_model result_ex ([], [], []) =
     ([(''2108.09112'', row_link ''2021-08-20'' ''A title'' ''A. Author'' ''2108.09112''
          ''https://arxiv.org/abs/2108.09112'' ''https://huggingface.co/models/org/m'')],
      [(''2108.09112'', web_link ''2021-08-20'' ''A title'' ''A. Author''
          ''https://arxiv.org/abs/2108.09112'' ''https://huggingface.co/models/org/m'')],
      [Log (Info_paper ''2021-08-20'' ''A title'' ''A. Author''),
       Sent (''https://huggingface.co/api/arxiv/2108.09112/repos'', HF_HEADERS, [])])"
    by (simp add: py_str_def)
  note t = unresolved_marker [where net = net_hub_model and w = "[]" and k = "''2108.09112''"
      and c = null_row_ex and ?date0.0 = "''2021-08-20''" and ?title0.0 = "''A title''"
      and ?author0.0 = "''A. Author''" and ?key0.0 = "''2108.09112''"
      and ?url0.0 = "''https://arxiv.org/abs/2108.09112''"]
  have pf: "CHR ''|'' \<notin> set ''2021-08-20'' \<and> CHR ''|'' \<notin> set ''A title'' \<and>
      CHR ''|'' \<notin> set ''A. Author'' \<and> CHR ''|'' \<notin> set ''2108.09112'' \<and>
      CHR ''|'' \<notin> set ''https://arxiv.org/abs/2108.09112''"
    by simp
  note s = t [THEN conjunct2, THEN conjunct2, THEN conjunct2, THEN conjunct1, THEN mp, OF pf]
  from s have nl: "needs_link null_row_ex"
    by (simp only: null_row_ex_def)
  from t [THEN conjunct2, THEN conjunct1] nl
  have c: "clock [] < clock (snd (backfill_record net_hub_model (''2108.09112'', null_row_ex) []))"
    by simp
  have st: "py_strip ''A. Author et.al.'' = ''A. Author et.al.''"
    by (simp add: py_strip_def py_isspace_def)
  have key: "sub_version (case bracket_group ''[2108.09112](https://arxiv.org/abs/2108.09112)'' of
        Some g \<Rightarrow> py_strip g
      | None \<Rightarrow> ''[2108.09112](https://arxiv.org/abs/2108.09112)'') = ''2108.09112''"
    using parse_null_row_ex
    by (simp add: null_row_ex_def parse_arxiv_string_def row_null_def py_index_def bind_exn_def
        py_strip_def py_isspace_def is_digit_def Let_def)
  have key2: "sub_version (py_strip ''2108.09112'') = ''2108.09112''"
    by (simp add: py_strip_def py_isspace_def is_digit_def)
  from s [THEN conjunct2]
  have b: "backfill_record net_hub_model (''2108.09112'', null_row_ex) [] =
     (row_link ''2021-08-20'' ''A title'' ''A. Author'' ''2108.09112''
        ''https://arxiv.org/abs/2108.09112'' ''https://huggingface.co/models/org/m'',
      [Log (Info_attempt ''2108.09112''),
       Sent (''https://huggingface.co/api/arxiv/2108.09112/repos'', HF_HEADERS, []),
       Log (Info_found ''2108.09112''
         (row_link ''2021-08-20'' ''A title'' ''A. Author'' ''2108.09112''
            ''https://arxiv.org/abs/2108.09112'' ''https://huggingface.co/models/org/m''))])"
    by (simp add: null_row_ex_def Let_def st key key2 rb py_str_def row_link_def)
  from d have d1: "fst (daily_paper net_down result_ex ([], [], [])) = [(''2108.09112'', null_row_ex)]"
    and d2: "fst (snd (daily_paper net_down result_ex ([], [], []))) =
     [(''2108.09112'', web_plain ''2021-08-20'' ''A title'' ''A. Author''
         ''https://arxiv.org/abs/2108.09112'')]"
    by simp_all
  show ?thesis
    by (intro conjI d1 d2 n l nl c b)
qed

subsection \<open>Rows with a link whose fields do not hold the column separator\<close>

lemma py_in_skip:
  "CHR ''|'' \<notin> set x \<Longrightarrow> py_in ''|null|'' (x @ rest) = py_in ''|null|'' rest"
  by (induction x) auto

lemma py_in_no_match:
  "take (length pat) (c # cs) \<noteq> pat \<Longrightarrow> py_in pat (c # cs) = py_in pat cs"
  by simp

lemma py_in_cell:
  assumes "CHR ''|'' \<notin> set x" and "x \<noteq> ''null''"
  shows "py_in ''|null|'' (CHR ''|'' # x @ CHR ''|'' # rest) = py_in ''|null|'' (CHR ''|'' # rest)"
proof -
  have "take (length ''|null|'') (CHR ''|'' # x @ CHR ''|'' # rest) \<noteq> ''|null|''"
  proof
    assume "take (length ''|null|'') (CHR ''|'' # x @ CHR ''|'' # rest) = ''|null|''"
    then have "take (Suc (length ''null'')) (x @ CHR ''|'' # rest) = ''null'' @ [CHR ''|'']"
      by (simp del: take_append)
    then have "x = ''null''"
      by (rule take_cell [OF assms(1), rotated]) simp
    with assms(2) show False by simp
  qed
  then have "py_in ''|null|'' (CHR ''|'' # x @ CHR ''|'' # rest)
      = py_in ''|null|'' (x @ CHR ''|'' # rest)"
    by (rule py_in_no_match)
  then show ?thesis
    by (simp only: py_in_skip [OF assms(1)])
qed

lemma py_in_row_end: "\<not> py_in ''|null|'' [CHR ''|'', NL]"
  by simp

lemma py_in_cells:
  assumes "CHR ''|'' \<notin> set d" "CHR ''|'' \<notin> set t" "CHR ''|'' \<notin> set a" "CHR ''|'' \<notin> set pdf"
    "CHR ''|'' \<notin> set code"
    and "d \<noteq> ''null''" "t \<noteq> ''null''" "a \<noteq> ''null''" "pdf \<noteq> ''null''" "code \<noteq> ''null''"
  shows "\<not> py_in ''|null|'' (normal_row (d, t, a, key, code, pdf))"
proof -
  have "normal_row (d, t, a, key, code, pdf)
      = CHR ''|'' # d @ CHR ''|'' # t @ CHR ''|'' # a @ CHR ''|'' # pdf @ CHR ''|'' # code @ CHR ''|'' # [NL]"
    by (simp add: normal_row_def)
  then show ?thesis
    by (simp only: py_in_cell [OF assms(1,6)] py_in_cell [OF assms(2,7)]
        py_in_cell [OF assms(3,8)] py_in_cell [OF assms(4,9)] py_in_cell [OF assms(5,10)]
        py_in_row_end not_False_eq_True)
qed

lemma py_strip_link: "py_strip (''**[link]('' @ repo @ '')**'') = ''**[link]('' @ repo @ '')**''"
  by (rule py_strip_fixed) (simp add: py_isspace_def)

lemma parse_row_link:
  assumes "CHR ''|'' \<notin> set ut" "CHR ''|'' \<notin> set ttl" "CHR ''|'' \<notin> set a" "CHR ''|'' \<notin> set key"
    "CHR ''|'' \<notin> set url" "CHR ''|'' \<notin> set repo"
  shows "parse_arxiv_string (row_link ut ttl a key url repo) =
     Inr (''**'' @ ut @ ''**'', ''**'' @ ttl @ ''**'', py_strip (a @ '' et.al.''),
          sub_version (case bracket_group (''['' @ key @ '']('' @ url @ '')'') of
                         Some g \<Rightarrow> py_strip g | None \<Rightarrow> ''['' @ key @ '']('' @ url @ '')''),
          ''**[link]('' @ repo @ '')**'', ''['' @ key @ '']('' @ url @ '')'')"
proof -
  have "parse_arxiv_string (row_link ut ttl a key url repo) =
     Inr (py_strip (''**'' @ ut @ ''**''), py_strip (''**'' @ ttl @ ''**''), py_strip (a @ '' et.al.''),
          sub_version (case bracket_group (py_strip (''['' @ key @ '']('' @ url @ '')'')) of
                         Some g \<Rightarrow> py_strip g | None \<Rightarrow> py_strip (''['' @ key @ '']('' @ url @ '')'')),
          py_strip (''**[link]('' @ repo @ '')**''), py_strip (''['' @ key @ '']('' @ url @ '')''))"
    unfolding row_link_cells using assms by (intro parse_cells) simp_all
  then show ?thesis
    by (simp only: py_strip_stars py_strip_pdf py_strip_link)
qed

lemma backfill_row_link:
  assumes "CHR ''|'' \<notin> set ut" "CHR ''|'' \<notin> set ttl" "CHR ''|'' \<notin> set a" "CHR ''|'' \<notin> set key"
    "CHR ''|'' \<notin> set url" "CHR ''|'' \<notin> set repo"
  shows "backfill_record net (k, row_link ut ttl a key url repo) w =
     (''|**'' @ ut @ ''**|**'' @ ttl @ ''**|'' @ py_strip (a @ '' et.al.'') @ ''|['' @ key @ '']('' @ url
        @ '')|**[link]('' @ repo @ '')**|'' @ [NL], w)"
proof -
  let ?author = "py_strip (a @ '' et.al.'')"
  let ?pdf = "''['' @ key @ '']('' @ url @ '')''"
  let ?key = "sub_version (case bracket_group ?pdf of Some g \<Rightarrow> py_strip g | None \<Rightarrow> ?pdf)"
  let ?p = "(''**'' @ ut @ ''**'', ''**'' @ ttl @ ''**'', ?author, ?key, ''**[link]('' @ repo @ '')**'', ?pdf)"
  have au: "CHR ''|'' \<notin> set ?author"
    using assms(3) set_py_strip [of "a @ '' et.al.''"] by auto
  have "\<not> py_in ''|null|'' (normal_row ?p)"
    using assms au py_strip_author_not_null [of a] by (intro py_in_cells) simp_all
  with parse_row_link [OF assms]
  have "backfill_record net (k, row_link ut ttl a key url repo) w = (normal_row ?p, w)"
    by (rule backfill_record_valid)
  then show ?thesis
    by (simp add: normal_row_def)
qed

lemma row_link_strip:
  "a \<noteq> [] \<Longrightarrow> \<not> py_isspace (hd a) \<Longrightarrow>
   ''|**'' @ ut @ ''**|**'' @ ttl @ ''**|'' @ py_strip (a @ '' et.al.'') @ ''|['' @ key @ '']('' @ url
        @ '')|**[link]('' @ repo @ '')**|'' @ [NL] = row_link ut ttl a key url repo"
proof -
  assume "a \<noteq> []" "\<not> py_isspace (hd a)"
  then have "py_strip (a @ '' et.al.'') = a @ '' et.al.''"
    by (intro py_strip_fixed) (simp add: py_isspace_def)
  then show ?thesis
    by (simp add: row_link_def)
qed

lemma backfill_papers_link:
  assumes "list_all (\<lambda>(k, ut, ttl, a, key, url, repo).
      CHR ''|'' \<notin> set ut \<and> CHR ''|'' \<notin> set ttl \<and> CHR ''|'' \<notin> set a \<and> CHR ''|'' \<notin> set key \<and>
      CHR ''|'' \<notin> set url \<and> CHR ''|'' \<notin> set repo) v"
  shows "backfill_papers net
           (map (\<lambda>(k, ut, ttl, a, key, url, repo). (k, row_link ut ttl a key url repo)) v) w
         = (map (\<lambda>(k, ut, ttl, a, key, url, repo).
                   (k, ''|**'' @ ut @ ''**|**'' @ ttl @ ''**|'' @ py_strip (a @ '' et.al.'') @ ''|[''
                         @ key @ '']('' @ url @ '')|**[link]('' @ repo @ '')**|'' @ [NL])) v, w)"
  using assms
proof (induction v)
  case Nil
  show ?case by simp
next
  case (Cons x v)
  obtain k ut ttl a key url repo where x: "x = (k, ut, ttl, a, key, url, repo)"
    by (cases x)
  with Cons.prems have p: "CHR ''|'' \<notin> set ut" "CHR ''|'' \<notin> set ttl" "CHR ''|'' \<notin> set a"
    "CHR ''|'' \<notin> set key" "CHR ''|'' \<notin> set url" "CHR ''|'' \<notin> set repo"
    by simp_all
  from Cons.prems have "list_all (\<lambda>(k, ut, ttl, a, key, url, repo).
      CHR ''|'' \<notin> set ut \<and> CHR ''|'' \<notin> set ttl \<and> CHR ''|'' \<notin> set a \<and> CHR ''|'' \<notin> set key \<and>
      CHR ''|'' \<notin> set url \<and> CHR ''|'' \<notin> set repo) v"
    by simp
  from Cons.IH [OF this] x show ?case
    by (simp add: backfill_row_link [OF p])
qed

lemma backfill_topics_link:
  assumes "list_all (\<lambda>(t, v). list_all (\<lambda>(k, ut, ttl, a, key, url, repo).
      CHR ''|'' \<notin> set ut \<and> CHR ''|'' \<notin> set ttl \<and> CHR ''|'' \<notin> set a \<and> CHR ''|'' \<notin> set key \<and>
      CHR ''|'' \<notin> set url \<and> CHR ''|'' \<notin> set repo) v) s"
  shows "backfill_topics net
           (map (\<lambda>(t, v). (t, map (\<lambda>(k, ut, ttl, a, key, url, repo).
                                     (k, row_link ut ttl a key url repo)) v)) s) w
         = (map (\<lambda>(t, v). (t, map (\<lambda>(k, ut, ttl, a, key, url, repo).
                   (k, ''|**'' @ ut @ ''**|**'' @ ttl @ ''**|'' @ py_strip (a @ '' et.al.'') @ ''|[''
                         @ key @ '']('' @ url @ '')|**[link]('' @ repo @ '')**|'' @ [NL])) v)) s,
            w @ map (\<lambda>(t, v). Log (Info_keywords t)) s)"
  using assms
proof (induction s arbitrary: w)
  case Nil
  show ?case by simp
next
  case (Cons x s)
  obtain t v where x: "x = (t, v)"
    by (cases x)
  with Cons.prems have p: "list_all (\<lambda>(k, ut, ttl, a, key, url, repo).
      CHR ''|'' \<notin> set ut \<and> CHR ''|'' \<notin> set ttl \<and> CHR ''|'' \<notin> set a \<and> CHR ''|'' \<notin> set key \<and>
      CHR ''|'' \<notin> set url \<and> CHR ''|'' \<notin> set repo) v"
    by simp
  from Cons.prems have "list_all (\<lambda>(t, v). list_all (\<lambda>(k, ut, ttl, a, key, url, repo).
      CHR ''|'' \<notin> set ut \<and> CHR ''|'' \<notin> set ttl \<and> CHR ''|'' \<notin> set a \<and> CHR ''|'' \<notin> set key \<and>
      CHR ''|'' \<notin> set url \<and> CHR ''|'' \<notin> set repo) v) s"
    by simp
  from Cons.IH [OF this, of "w @ [Log (Info_keywords t)]"] x show ?case
    by (simp add: backfill_papers_link [OF p])
qed

text \<open>
  C3. A store whose records all carry a resolved link, as discovery stores them (line 275).
  (1) When none of the fields of the records holds the column separator \<open>|\<close>, a backfill
  pass sends no request and logs the topic lines only: the resolver is not invoked. Every row
  is stored again with its cells stripped, which changes nothing but white space at the
  start of the author cell; a store of such rows whose authors start with a visible
  character is left exactly as it is. (2) A title that holds the separator breaks this. The
  row for the title \<open>Entropy of A|B systems\<close> is parsed with its columns shifted by one:
  the pass sends no request, but the row it stores has lost the link. (3) The row for the
  title \<open>a|null|b\<close> has a normal form that holds \<open>|null|\<close>: the pass invokes the resolver,
  which on a network where every request fails sends 18 requests, and the row it stores has
  lost the link and the reference to the paper.
\<close>

theorem backfill_resolved_row_pipe_in_title:
  "(list_all (\<lambda>(t, v). list_all (\<lambda>(k, ut, ttl, a, key, url, repo).
        CHR ''|'' \<notin> set ut \<and> CHR ''|'' \<notin> set ttl \<and> CHR ''|'' \<notin> set a \<and> CHR ''|'' \<notin> set key \<and>
        CHR ''|'' \<notin> set url \<and> CHR ''|'' \<notin> set repo) v) s \<longrightarrow>
      backfill_topics net
          (map (\<lambda>(t, v). (t, map (\<lambda>(k, ut, ttl, a, key, url, repo).
                                    (k, row_link ut ttl a key url repo)) v)) s) w
        = (map (\<lambda>(t, v). (t, map (\<lambda>(k, ut, ttl, a, key, url, repo).
                  (k, ''|**'' @ ut @ ''**|**'' @ ttl @ ''**|'' @ py_strip (a @ '' et.al.'') @ ''|[''
                        @ key @ '']('' @ url @ '')|**[link]('' @ repo @ '')**|'' @ [NL])) v)) s,
           w @ map (\<lambda>(t, v). Log (Info_keywords t)) s)) \<and>
   (a \<noteq> [] \<and> \<not> py_isspace (hd a) \<longrightarrow>
      ''|**'' @ ut @ ''**|**'' @ ttl @ ''**|'' @ py_strip (a @ '' et.al.'') @ ''|['' @ key @ '']('' @ url
        @ '')|**[link]('' @ repo @ '')**|'' @ [NL] = row_link ut ttl a key url repo) \<and>
   backfill_topics net_down [(''SLAM'', [(''2108.09112'', pipe_title_row_ex)])] []
     = ([(''SLAM'', [(''2108.09112'',
           ''|**2021-08-20**|**Entropy of A|B systems**|A. Author et.al.|[2108.09112](https://arxiv.org/abs/2108.09112)|'' @ [NL])])],
        [Log (Info_keywords ''SLAM'')]) \<and>
   fst (backfill_topics net_down [(''SLAM'', [(''2108.09112'', null_title_row_ex)])] [])
     = [(''SLAM'', [(''2108.09112'', ''|**2021-08-20**|**a|null|b**|A. Author et.al.|'' @ [NL])])] \<and>
   clock (snd (backfill_topics net_down [(''SLAM'', [(''2108.09112'', null_title_row_ex)])] [])) = 18"
proof -
  obtain c w1 where b: "backfill_record net_down (''2108.09112'', null_title_row_ex)
      [Log (Info_keywords ''SLAM'')] = (c, w1)"
    by (cases "backfill_record net_down (''2108.09112'', null_title_row_ex)
      [Log (Info_keywords ''SLAM'')]")
  with backfill_null_title_row_ex [of "[Log (Info_keywords ''SLAM'')]"]
  have c: "c = ''|**2021-08-20**|**a|null|b**|A. Author et.al.|'' @ [NL]" and w1: "clock w1 = 18"
    by simp_all
  have 1: "backfill_topics net_down [(''SLAM'', [(''2108.09112'', pipe_title_row_ex)])] []
     = ([(''SLAM'', [(''2108.09112'',
           ''|**2021-08-20**|**Entropy of A|B systems**|A. Author et.al.|[2108.09112](https://arxiv.org/abs/2108.09112)|'' @ [NL])])],
        [Log (Info_keywords ''SLAM'')])"
    by (simp add: backfill_pipe_title_row_ex)
  have 2: "fst (backfill_topics net_down [(''SLAM'', [(''2108.09112'', null_title_row_ex)])] [])
     = [(''SLAM'', [(''2108.09112'', ''|**2021-08-20**|**a|null|b**|A. Author et.al.|'' @ [NL])])]"
    by (simp add: b c)
  have 3: "clock (snd (backfill_topics net_down [(''SLAM'', [(''2108.09112'', null_title_row_ex)])] []))
      = 18"
    by (simp add: b w1)
  show ?thesis
    by (intro conjI impI backfill_topics_link row_link_strip 1 2 3) simp_all
qed

theorem backfill_resolved_row_pipe_in_title_witness:
  "list_all (\<lambda>(t, v). list_all (\<lambda>(k, ut, ttl, a, key, url, repo).
        CHR ''|'' \<notin> set ut \<and> CHR ''|'' \<notin> set ttl \<and> CHR ''|'' \<notin> set a \<and> CHR ''|'' \<notin> set key \<and>
        CHR ''|'' \<notin> set url \<and> CHR ''|'' \<notin> set repo) v)
      [(''SLAM'', [(''2108.09112'', ''2021-08-20'', ''A title'', ''A. Author'', ''2108.09112'',
                    ''https://arxiv.org/abs/2108.09112'', ''https://github.com/o/r'')]),
       (''NeRF'', [])] \<and>
   backfill_topics net_403_then_200
       [(''SLAM'', [(''2108.09112'', row_link ''2021-08-20'' ''A title'' ''A. Author'' ''2108.09112''
           ''https://arxiv.org/abs/2108.09112'' ''https://github.com/o/r'')]),
        (''NeRF'', [])] []
     = ([(''SLAM'', [(''2108.09112'', row_link ''2021-08-20'' ''A title'' ''A. Author'' ''2108.09112''
           ''https://arxiv.org/abs/2108.09112'' ''https://github.com/o/r'')]),
         (''NeRF'', [])],
        [Log (Info_keywords ''SLAM''), Log (Info_keywords ''NeRF'')])"
proof -
  let ?s = "[(''SLAM'', [(''2108.09112'', ''2021-08-20'', ''A title'', ''A. Author'', ''2108.09112'',
                    ''https://arxiv.org/abs/2108.09112'', ''https://github.com/o/r'')]),
       (''NeRF'', [])]"
  have h: "list_all (\<lambda>(t, v). list_all (\<lambda>(k, ut, ttl, a, key, url, repo).
        CHR ''|'' \<notin> set ut \<and> CHR ''|'' \<notin> set ttl \<and> CHR ''|'' \<notin> set a \<and> CHR ''|'' \<notin> set key \<and>
        CHR ''|'' \<notin> set url \<and> CHR ''|'' \<notin> set repo) v) ?s"
    by simp
  have g: "''A. Author'' \<noteq> [] \<and> \<not> py_isspace (hd ''A. Author'')"
    by (simp add: py_isspace_def)
  note t = backfill_resolved_row_pipe_in_title [where s = "?s" and net = net_403_then_200
      and w = "[]" and a = "''A. Author''" and ut = "''2021-08-20''" and ttl = "''A title''"
      and key = "''2108.09112''" and url = "''https://arxiv.org/abs/2108.09112''"
      and repo = "''https://github.com/o/r''"]
  note r = t [THEN conjunct2, THEN conjunct1, THEN mp, OF g]
  from t [THEN conjunct1, THEN mp, OF h]
  have "backfill_topics net_403_then_200
       [(''SLAM'', [(''2108.09112'', row_link ''2021-08-20'' ''A title'' ''A. Author'' ''2108.09112''
           ''https://arxiv.org/abs/2108.09112'' ''https://github.com/o/r'')]),
        (''NeRF'', [])] []
     = ([(''SLAM'', [(''2108.09112'',
            ''|**'' @ ''2021-08-20'' @ ''**|**'' @ ''A title'' @ ''**|'' @ py_strip (''A. Author'' @ '' et.al.'')
              @ ''|['' @ ''2108.09112'' @ '']('' @ ''https://arxiv.org/abs/2108.09112''
              @ '')|**[link]('' @ ''https://github.com/o/r'' @ '')**|'' @ [NL])]),
         (''NeRF'', [])],
        [Log (Info_keywords ''SLAM''), Log (Info_keywords ''NeRF'')])"
    by (simp only: list.map prod.case append_Nil)
  then have "backfill_topics net_403_then_200
       [(''SLAM'', [(''2108.09112'', row_link ''2021-08-20'' ''A title'' ''A. Author'' ''2108.09112''
           ''https://arxiv.org/abs/2108.09112'' ''https://github.com/o/r'')]),
        (''NeRF'', [])] []
     = ([(''SLAM'', [(''2108.09112'', row_link ''2021-08-20'' ''A title'' ''A. Author'' ''2108.09112''
           ''https://arxiv.org/abs/2108.09112'' ''https://github.com/o/r'')]),
         (''NeRF'', [])],
        [Log (Info_keywords ''SLAM''), Log (Info_keywords ''NeRF'')])"
    by (simp only: r)
  with h show ?thesis
    by (rule conjI)
qed

end
